theory Spec2Isabelle
  imports Main "HOL-Library.Log_Nat"
begin

section \<open>JavaScript numbers\<close>

text \<open>
  Every number of the services is a JavaScript number, an IEEE 754 double: quantities,
  prices and amounts arrive as JSON numbers and are stored in Mongoose \<open>Number\<close>
  paths, which check neither integrality nor range. A finite double is modelled by the
  rational number it denotes, and an arithmetic operation of the source by the exact
  operation followed by rounding to the nearest double, ties to the even significand.
  \<open>exponent a\<close> is the exponent of the unit in the last place of the binade of a
  positive \<open>a\<close>: significands have 53 bits, and the least exponent, \<open>-1074\<close>, is
  that of the subnormal numbers. The model stops at the finite numbers: a result of
  magnitude \<open>2 ^ 1024\<close> or more is \<open>Infinity\<close> in the source and is no value
  here, and neither is \<open>NaN\<close>; \<open>representable\<close> holds of the rationals that are
  finite doubles.
\<close>

definition precision :: int where
  "precision = 53"

definition min_exponent :: int where
  "min_exponent = - 1074"

definition exponent :: "rat \<Rightarrow> int" where
  "exponent a =
     max min_exponent (bitlen \<lfloor>a * 2 powi (- min_exponent)\<rfloor> - precision + min_exponent)"

text \<open>Rounding to the nearest integer, ties to even.\<close>

definition rne :: "rat \<Rightarrow> int" where
  "rne r =
     (let f = \<lfloor>r\<rfloor>; d = r - of_int f
      in if d < 1 / 2 then f else if 1 / 2 < d then f + 1 else if even f then f else f + 1)"

definition round_double :: "rat \<Rightarrow> rat" where
  "round_double x =
     (if x = 0 then 0
      else sgn x * (of_int (rne (\<bar>x\<bar> / 2 powi exponent \<bar>x\<bar>)) * 2 powi exponent \<bar>x\<bar>))"

definition overflow_bound :: rat where
  "overflow_bound = 2 powi 1024"

definition representable :: "rat \<Rightarrow> bool" where
  "representable x \<longleftrightarrow> round_double x = x \<and> \<bar>x\<bar> < overflow_bound"

text \<open>The operators \<open>+\<close> and \<open>-\<close> (also in \<open>+=\<close> and \<open>-=\<close>) on numbers.\<close>

definition js_add :: "rat \<Rightarrow> rat \<Rightarrow> rat" where
  "js_add a b = round_double (a + b)"

definition js_sub :: "rat \<Rightarrow> rat \<Rightarrow> rat" where
  "js_sub a b = round_double (a - b)"


section \<open>Events carried by the broker\<close>

text \<open>
  The three services exchange JSON payloads over durable queues. Each payload is a
  record with the fields its producer writes. Quantities, prices and amounts are
  JavaScript numbers (\<open>rat\<close>, see above), clock readings (\<open>Date.now()\<close>,
  milliseconds) are \<open>nat\<close>. Status fields stay strings, because the consumers
  compare them with \<open>===\<close> against string literals and fall into an \<open>else\<close>
  branch for every other value. The model describes the services once
  \<open>connectRabbitMQ\<close> has succeeded: \<open>channel.sendToQueue\<close> appends to a queue
  and the stores answer every query. The effect of one handler run on its store is one
  step of the model; runs do not interleave. Payloads carry every field their handler
  reads, with the JSON type the handler expects.
\<close>

record payment_processed =
  pp_orderId :: string
  pp_paymentId :: string
  pp_status :: string
  pp_amount :: rat
  pp_transactionId :: "string option"
  pp_timestamp :: nat

record shortfall =
  sf_productId :: string
  sf_requested :: rat
  sf_available :: rat

record inventory_updated =
  iu_orderId :: string
  iu_status :: string
  iu_items :: "shortfall list option"
  iu_timestamp :: nat

datatype delivery = Ack | NoAck

section \<open>Order service\<close>

datatype order_status =
  OrderPending | OrderPaymentProcessing | OrderConfirmed | OrderFailed | OrderCancelled

record order_item =
  oi_productId :: string
  oi_quantity :: rat
  oi_price :: rat

text \<open>
  The \<open>orders\<close> collection has a unique index on \<open>orderId\<close>, so it is a map
  from order id to the rest of the document.
\<close>

record order =
  o_userId :: string
  o_items :: "order_item list"
  o_totalAmount :: rat
  o_status :: order_status
  o_paymentId :: "string option"
  o_createdAt :: nat
  o_updatedAt :: nat

type_synonym orders = "string \<rightharpoonup> order"

text \<open>\<open>handlePaymentProcessed\<close> of the order service; \<open>now\<close> is \<open>new Date()\<close>.\<close>

definition order_handlePaymentProcessed :: "payment_processed \<Rightarrow> nat \<Rightarrow> orders \<Rightarrow> orders" where
  "order_handlePaymentProcessed payload now db =
     (case db (pp_orderId payload) of
        None \<Rightarrow> db
      | Some order \<Rightarrow>
          (let order1 =
                 (if pp_status payload = ''success''
                  then order\<lparr>o_status := OrderConfirmed, o_paymentId := Some (pp_paymentId payload)\<rparr>
                  else order\<lparr>o_status := OrderFailed\<rparr>)
           in db(pp_orderId payload \<mapsto> order1\<lparr>o_updatedAt := now\<rparr>)))"

definition order_handleInventoryUpdated :: "inventory_updated \<Rightarrow> nat \<Rightarrow> orders \<Rightarrow> orders" where
  "order_handleInventoryUpdated payload now db =
     (case db (iu_orderId payload) of
        None \<Rightarrow> db
      | Some order \<Rightarrow>
          if iu_status payload = ''reserved'' then db
          else if iu_status payload = ''insufficient''
          then db(iu_orderId payload \<mapsto> order\<lparr>o_status := OrderCancelled, o_updatedAt := now\<rparr>)
          else db)"

text \<open>
  The two \<open>channel.consume\<close> callbacks: a null message is skipped, any other one is
  handed to its handler and acknowledged once the handler has returned.
\<close>

definition order_consume_payment_processed ::
  "payment_processed option \<Rightarrow> nat \<Rightarrow> orders \<Rightarrow> orders \<times> delivery" where
  "order_consume_payment_processed msg now db =
     (case msg of
        None \<Rightarrow> (db, NoAck)
      | Some payload \<Rightarrow> (order_handlePaymentProcessed payload now db, Ack))"

definition order_consume_inventory_updated ::
  "inventory_updated option \<Rightarrow> nat \<Rightarrow> orders \<Rightarrow> orders \<times> delivery" where
  "order_consume_inventory_updated msg now db =
     (case msg of
        None \<Rightarrow> (db, NoAck)
      | Some payload \<Rightarrow> (order_handleInventoryUpdated payload now db, Ack))"

definition status_of :: "orders \<Rightarrow> string \<Rightarrow> order_status option" where
  "status_of db orderId = map_option o_status (db orderId)"


section \<open>Inventory service\<close>

datatype reservation_status = ResReserved | ResConfirmed | ResReleased

text \<open>
  The \<open>inventories\<close> collection has a unique index on \<open>productId\<close>: it is a
  map from product id to the rest of the document. Reservations have no key of their
  own besides the document id, which is the position in the list here.
\<close>

record inventory_item =
  productName :: string
  quantity :: rat
  reserved :: rat
  available :: rat
  price :: rat
  updatedAt :: nat

record reservation =
  r_orderId :: string
  r_productId :: string
  r_quantity :: rat
  r_status :: reservation_status
  r_createdAt :: nat
  r_expiresAt :: nat

record ledger =
  inventory :: "string \<rightharpoonup> inventory_item"
  reservations :: "reservation list"
  outbox :: "inventory_updated list"

record line_item =
  li_productId :: string
  li_quantity :: rat

text \<open>The \<open>pre("save")\<close> hook runs on every \<open>inventory.save()\<close>.\<close>

definition pre_save :: "inventory_item \<Rightarrow> inventory_item" where
  "pre_save doc = doc\<lparr>available := js_sub (quantity doc) (reserved doc)\<rparr>"

definition save_inventory :: "string \<Rightarrow> inventory_item \<Rightarrow> ledger \<Rightarrow> ledger" where
  "save_inventory pid doc s = s\<lparr>inventory := (inventory s)(pid \<mapsto> pre_save doc)\<rparr>"

definition save_reservation :: "nat \<Rightarrow> reservation \<Rightarrow> ledger \<Rightarrow> ledger" where
  "save_reservation i doc s = s\<lparr>reservations := (reservations s)[i := doc]\<rparr>"

text \<open>
  \<open>Reservation.find(filter)\<close> returns the matching documents as they are at the time
  of the query, each with its document id.
\<close>

definition find_reservations :: "(reservation \<Rightarrow> bool) \<Rightarrow> ledger \<Rightarrow> (nat \<times> reservation) list" where
  "find_reservations P s = filter (\<lambda>d. P (snd d)) (enumerate 0 (reservations s))"

text \<open>One turn of the loop of \<open>releaseReservation\<close>.\<close>

definition release_one :: "ledger \<Rightarrow> nat \<times> reservation \<Rightarrow> ledger" where
  "release_one s d =
     (case inventory s (r_productId (snd d)) of
        None \<Rightarrow> s
      | Some doc \<Rightarrow>
          save_reservation (fst d) ((snd d)\<lparr>r_status := ResReleased\<rparr>)
            (save_inventory (r_productId (snd d))
               (doc\<lparr>reserved := js_sub (reserved doc) (r_quantity (snd d))\<rparr>) s))"

definition releaseReservation :: "string \<Rightarrow> ledger \<Rightarrow> ledger" where
  "releaseReservation orderId s =
     foldl release_one s
       (find_reservations (\<lambda>r. r_orderId r = orderId \<and> r_status r = ResReserved) s)"

text \<open>One turn of the loop in the success branch of \<open>handlePaymentProcessed\<close>.\<close>

definition confirm_one :: "ledger \<Rightarrow> nat \<times> reservation \<Rightarrow> ledger" where
  "confirm_one s d =
     (case inventory s (r_productId (snd d)) of
        None \<Rightarrow> s
      | Some doc \<Rightarrow>
          save_reservation (fst d) ((snd d)\<lparr>r_status := ResConfirmed\<rparr>)
            (save_inventory (r_productId (snd d))
               (doc\<lparr>quantity := js_sub (quantity doc) (r_quantity (snd d)),
                    reserved := js_sub (reserved doc) (r_quantity (snd d))\<rparr>) s))"

definition inventory_handlePaymentProcessed :: "payment_processed \<Rightarrow> nat \<Rightarrow> ledger \<Rightarrow> ledger" where
  "inventory_handlePaymentProcessed payload now s =
     (if pp_status payload = ''success''
      then
        (let s1 = foldl confirm_one s
                    (find_reservations
                       (\<lambda>r. r_orderId r = pp_orderId payload \<and> r_status r = ResReserved) s)
         in s1\<lparr>outbox := outbox s1 @
                  [\<lparr>iu_orderId = pp_orderId payload, iu_status = ''reserved'',
                    iu_items = None, iu_timestamp = now\<rparr>]\<rparr>)
      else releaseReservation (pp_orderId payload) s)"

definition inventory_consume_payment_processed ::
  "payment_processed option \<Rightarrow> nat \<Rightarrow> ledger \<Rightarrow> ledger \<times> delivery" where
  "inventory_consume_payment_processed msg now s =
     (case msg of
        None \<Rightarrow> (s, NoAck)
      | Some payload \<Rightarrow> (inventory_handlePaymentProcessed payload now s, Ack))"

text \<open>
  \<open>POST /api/inventory/reserve\<close>. First loop: the availability check, which
  collects \<open>insufficientItems\<close> in request order.
\<close>

fun check_availability :: "(string \<rightharpoonup> inventory_item) \<Rightarrow> line_item list \<Rightarrow> shortfall list" where
  "check_availability stock [] = []"
| "check_availability stock (item # items) =
     (case stock (li_productId item) of
        None \<Rightarrow>
          \<lparr>sf_productId = li_productId item, sf_requested = li_quantity item,
           sf_available = 0\<rparr> # check_availability stock items
      | Some doc \<Rightarrow>
          if available doc < li_quantity item
          then \<lparr>sf_productId = li_productId item, sf_requested = li_quantity item,
                sf_available = available doc\<rparr> # check_availability stock items
          else check_availability stock items)"

text \<open>
  Second loop: one inventory update and one new reservation per line item. The clock
  reading \<open>now\<close> is taken as constant over one request. \<open>reservation.save()\<close>
  validates the new document first: \<open>orderId\<close> and \<open>productId\<close> are required
  strings, and the \<open>required\<close> validator of a string path rejects the empty
  string. Reading \<open>reserved\<close> of a missing document throws as well. The handler's
  \<open>catch\<close> answers 500 to either exception; whatever was saved before stays
  saved, the inventory item of the rejected reservation included, hence the state is
  returned in both cases.
\<close>

definition new_reservation :: "string \<Rightarrow> nat \<Rightarrow> line_item \<Rightarrow> reservation" where
  "new_reservation orderId now item =
     \<lparr>r_orderId = orderId, r_productId = li_productId item, r_quantity = li_quantity item,
      r_status = ResReserved, r_createdAt = now, r_expiresAt = now + 15 * 60 * 1000\<rparr>"

definition valid_reservation :: "reservation \<Rightarrow> bool" where
  "valid_reservation r \<longleftrightarrow> r_orderId r \<noteq> [] \<and> r_productId r \<noteq> []"

fun reserve_loop ::
  "string \<Rightarrow> nat \<Rightarrow> line_item list \<Rightarrow> reservation list \<Rightarrow> ledger \<Rightarrow> ledger \<times> reservation list option" where
  "reserve_loop orderId now [] acc s = (s, Some acc)"
| "reserve_loop orderId now (item # items) acc s =
     (case inventory s (li_productId item) of
        None \<Rightarrow> (s, None)
      | Some doc \<Rightarrow>
          (let s1 = save_inventory (li_productId item)
                      (doc\<lparr>reserved := js_add (reserved doc) (li_quantity item)\<rparr>) s;
               reservation = new_reservation orderId now item
           in if valid_reservation reservation
              then reserve_loop orderId now items (acc @ [reservation])
                     (s1\<lparr>reservations := reservations s1 @ [reservation]\<rparr>)
              else (s1, None)))"

datatype reserve_response =
  ReserveOk "(string \<times> rat \<times> nat) list"
| ReserveInsufficient "shortfall list"
| ReserveError

definition reserve :: "string \<Rightarrow> line_item list \<Rightarrow> nat \<Rightarrow> ledger \<Rightarrow> ledger \<times> reserve_response" where
  "reserve orderId items now s =
     (let insufficientItems = check_availability (inventory s) items
      in if length insufficientItems > 0
         then (s\<lparr>outbox := outbox s @
                    [\<lparr>iu_orderId = orderId, iu_status = ''insufficient'',
                      iu_items = Some insufficientItems, iu_timestamp = now\<rparr>]\<rparr>,
               ReserveInsufficient insufficientItems)
         else (case reserve_loop orderId now items [] s of
                 (s', None) \<Rightarrow> (s', ReserveError)
               | (s', Some rs) \<Rightarrow>
                   (s', ReserveOk (map (\<lambda>r. (r_productId r, r_quantity r, r_expiresAt r)) rs))))"

text \<open>
  The expiry sweep (the \<open>setInterval\<close> callback): it queries the reservations that are
  still reserved and whose deadline lies before \<open>now\<close> (\<open>$lt\<close>), then calls
  \<open>releaseReservation\<close> with the order id of each document found, in turn.
  \<open>sweep_calls\<close> is the list of those calls.
\<close>

definition expired_reservations :: "nat \<Rightarrow> ledger \<Rightarrow> (nat \<times> reservation) list" where
  "expired_reservations now s =
     find_reservations (\<lambda>r. r_status r = ResReserved \<and> r_expiresAt r < now) s"

definition sweep_calls :: "nat \<Rightarrow> ledger \<Rightarrow> string list" where
  "sweep_calls now s = map (\<lambda>d. r_orderId (snd d)) (expired_reservations now s)"

definition sweepExpired :: "nat \<Rightarrow> ledger \<Rightarrow> ledger" where
  "sweepExpired now s = foldl (\<lambda>s' orderId. releaseReservation orderId s') s (sweep_calls now s)"

text \<open>
  The entry points through which the ledger changes. \<open>Confirm\<close> is the delivery of a
  successful \<open>payment.processed\<close> event, \<open>Release\<close> a call of
  \<open>releaseReservation\<close>.
\<close>

datatype ledger_op =
  Reserve string "line_item list" nat
| Confirm string nat
| Release string
| SweepExpired nat

definition success_event :: "string \<Rightarrow> payment_processed" where
  "success_event orderId =
     \<lparr>pp_orderId = orderId, pp_paymentId = [], pp_status = ''success'', pp_amount = 0,
      pp_transactionId = None, pp_timestamp = 0\<rparr>"

fun apply_op :: "ledger \<Rightarrow> ledger_op \<Rightarrow> ledger" where
  "apply_op s (Reserve orderId items now) = fst (reserve orderId items now s)"
| "apply_op s (Confirm orderId now) = inventory_handlePaymentProcessed (success_event orderId) now s"
| "apply_op s (Release orderId) = releaseReservation orderId s"
| "apply_op s (SweepExpired now) = sweepExpired now s"

definition run_ops :: "ledger \<Rightarrow> ledger_op list \<Rightarrow> ledger" where
  "run_ops s ops = foldl apply_op s ops"

section \<open>Payment service\<close>

text \<open>
  A row of the \<open>payments\<close> table, without the columns the database fills by itself
  (\<open>id\<close>, \<open>created_at\<close>, \<open>updated_at\<close>); no code of the service reads them.
\<close>

record payment =
  pay_payment_id :: string
  pay_order_id :: string
  pay_user_id :: string
  pay_amount :: rat
  pay_status :: string
  pay_payment_method :: "string option"
  pay_transaction_id :: "string option"

record payment_service =
  payments :: "payment list"
  payment_queue :: "payment_processed list"

record order_data =
  od_orderId :: string
  od_userId :: string
  od_totalAmount :: rat

text \<open>Decimal rendering of a clock reading inside a template literal.\<close>

fun string_of_nat :: "nat \<Rightarrow> string" where
  "string_of_nat n =
     (if n < 10 then [''0123456789'' ! n]
      else string_of_nat (n div 10) @ [''0123456789'' ! (n mod 10)])"

declare string_of_nat.simps [simp del]

text \<open>
  The database server is not part of the repository, and what it does with the values
  of a query is a parameter of the model. \<open>accepts_text db t\<close> says whether the
  server takes the text \<open>t\<close> as a parameter of a query (it refuses a text that
  contains a zero byte, for one), and \<open>stores_row db row\<close> is what the server makes
  of the values of an \<open>INSERT\<close> into \<open>payments\<close>: \<open>None\<close> when it rejects
  them (a text too long for its \<open>VARCHAR\<close> column, an amount outside
  \<open>DECIMAL(10, 2)\<close>, a missing value in a \<open>NOT NULL\<close> column, ...), and the
  row as stored otherwise, which may differ from the values sent (the amount rounded to
  two decimals, for one). The \<open>UNIQUE\<close> constraint on \<open>payment_id\<close> is declared
  by the service's own \<open>CREATE TABLE\<close> and is checked on the row as stored. A
  rejected query throws.
\<close>

record database =
  accepts_text :: "string \<Rightarrow> bool"
  stores_row :: "payment \<Rightarrow> payment option"

definition insert_payment :: "database \<Rightarrow> payment \<Rightarrow> payment list \<Rightarrow> payment list option" where
  "insert_payment db row tbl =
     (case stores_row db row of
        None \<Rightarrow> None
      | Some stored \<Rightarrow>
          if pay_payment_id stored \<in> set (map pay_payment_id tbl) then None
          else Some (tbl @ [stored]))"

text \<open>
  \<open>processOrderPayment\<close>. \<open>t_id\<close>, \<open>t_txn\<close> and \<open>t_event\<close> are the three clock
  readings (payment id, transaction id, event timestamp); \<open>paymentSuccess\<close> is the
  answer of the payment gateway. \<open>payment_values\<close> is the parameter array of the
  \<open>INSERT\<close> and \<open>payment_event_of\<close> the event object. An exception of the
  insert is caught and logged, and the function returns without publishing. Several
  invocations can be in flight at once (each waits a second for the gateway, and the
  consumer takes the next message meanwhile), so the clock readings of two invocations
  may coincide; the insert and the publication of one invocation are one step.
\<close>

definition payment_values :: "order_data \<Rightarrow> nat \<Rightarrow> bool \<Rightarrow> nat \<Rightarrow> payment" where
  "payment_values orderData t_id paymentSuccess t_txn =
     (let paymentId = ''PAY-'' @ string_of_nat t_id;
          status = (if paymentSuccess then ''success'' else ''failed'');
          transactionId = (if paymentSuccess then Some (''TXN-'' @ string_of_nat t_txn) else None)
      in \<lparr>pay_payment_id = paymentId, pay_order_id = od_orderId orderData,
          pay_user_id = od_userId orderData, pay_amount = od_totalAmount orderData,
          pay_status = status, pay_payment_method = None,
          pay_transaction_id = transactionId\<rparr>)"

definition payment_event_of :: "order_data \<Rightarrow> nat \<Rightarrow> bool \<Rightarrow> nat \<Rightarrow> nat \<Rightarrow> payment_processed" where
  "payment_event_of orderData t_id paymentSuccess t_txn t_event =
     (let paymentId = ''PAY-'' @ string_of_nat t_id;
          status = (if paymentSuccess then ''success'' else ''failed'');
          transactionId = (if paymentSuccess then Some (''TXN-'' @ string_of_nat t_txn) else None)
      in \<lparr>pp_orderId = od_orderId orderData, pp_paymentId = paymentId, pp_status = status,
          pp_amount = od_totalAmount orderData, pp_transactionId = transactionId,
          pp_timestamp = t_event\<rparr>)"

definition processOrderPayment ::
  "database \<Rightarrow> order_data \<Rightarrow> nat \<Rightarrow> bool \<Rightarrow> nat \<Rightarrow> nat \<Rightarrow> payment_service \<Rightarrow> payment_service" where
  "processOrderPayment db orderData t_id paymentSuccess t_txn t_event s =
     (case insert_payment db (payment_values orderData t_id paymentSuccess t_txn) (payments s) of
        None \<Rightarrow> s
      | Some tbl \<Rightarrow>
          s\<lparr>payments := tbl,
            payment_queue := payment_queue s @
              [payment_event_of orderData t_id paymentSuccess t_txn t_event]\<rparr>)"

text \<open>
  \<open>POST /api/payments/retry/:orderId\<close>. The \<open>SELECT\<close> returns the failed payments
  of the order in the order of their insertion (the service never updates or deletes a
  row); a rejected query is answered 500, an empty result 404. The stored amount comes
  back as a decimal text, which \<open>parseFloat\<close> turns into the nearest double.
\<close>

datatype retry_response = RetryInitiated | NoFailedPayment | RetryError

definition retryPayment ::
  "database \<Rightarrow> string \<Rightarrow> nat \<Rightarrow> bool \<Rightarrow> nat \<Rightarrow> nat \<Rightarrow> payment_service \<Rightarrow> payment_service \<times> retry_response" where
  "retryPayment db orderId t_id paymentSuccess t_txn t_event s =
     (if \<not> accepts_text db orderId then (s, RetryError)
      else
        case filter (\<lambda>row. pay_order_id row = orderId \<and> pay_status row = ''failed'') (payments s) of
          [] \<Rightarrow> (s, NoFailedPayment)
        | row # _ \<Rightarrow>
            (processOrderPayment db
               \<lparr>od_orderId = orderId, od_userId = pay_user_id row,
                od_totalAmount = round_double (pay_amount row)\<rparr>
               t_id paymentSuccess t_txn t_event s,
             RetryInitiated))"

datatype payment_op =
  Process order_data nat bool nat nat
| Retry string nat bool nat nat

fun apply_payment_op :: "database \<Rightarrow> payment_service \<Rightarrow> payment_op \<Rightarrow> payment_service" where
  "apply_payment_op db s (Process orderData t_id ok t_txn t_event) =
     processOrderPayment db orderData t_id ok t_txn t_event s"
| "apply_payment_op db s (Retry orderId t_id ok t_txn t_event) =
     fst (retryPayment db orderId t_id ok t_txn t_event s)"


section \<open>Sample data\<close>

definition order_in :: "order_status \<Rightarrow> order" where
  "order_in st =
     \<lparr>o_userId = ''u1'', o_items = [\<lparr>oi_productId = ''p1'', oi_quantity = 4, oi_price = 250\<rparr>],
      o_totalAmount = 1000, o_status = st, o_paymentId = None, o_createdAt = 0, o_updatedAt = 0\<rparr>"

definition payment_event :: "string \<Rightarrow> string \<Rightarrow> payment_processed" where
  "payment_event orderId status =
     \<lparr>pp_orderId = orderId, pp_paymentId = ''PAY-5'', pp_status = status, pp_amount = 1000,
      pp_transactionId = (if status = ''success'' then Some ''TXN-6'' else None),
      pp_timestamp = 6\<rparr>"

definition shortfall_event :: "string \<Rightarrow> inventory_updated" where
  "shortfall_event orderId =
     \<lparr>iu_orderId = orderId, iu_status = ''insufficient'',
      iu_items = Some [\<lparr>sf_productId = ''p1'', sf_requested = 8, sf_available = 6\<rparr>],
      iu_timestamp = 6\<rparr>"

definition order_data_of :: "string \<Rightarrow> order_data" where
  "order_data_of orderId = \<lparr>od_orderId = orderId, od_userId = ''u1'', od_totalAmount = 1000\<rparr>"

definition no_payments :: payment_service where
  "no_payments = \<lparr>payments = [], payment_queue = []\<rparr>"

definition payment_row :: "string \<Rightarrow> string \<Rightarrow> string \<Rightarrow> string option \<Rightarrow> payment" where
  "payment_row paymentId orderId status txn =
     \<lparr>pay_payment_id = paymentId, pay_order_id = orderId, pay_user_id = ''u1'',
      pay_amount = 1000, pay_status = status, pay_payment_method = None,
      pay_transaction_id = txn\<rparr>"

text \<open>
  A database that takes every text and stores every row as sent, which is what a server
  does with the sample rows below: their values fit their columns.
\<close>

definition plain_database :: database where
  "plain_database = \<lparr>accepts_text = (\<lambda>t. True), stores_row = Some\<rparr>"


text \<open>Two orders whose payments start in the same millisecond.\<close>

definition same_millisecond :: payment_service where
  "same_millisecond = foldl (apply_payment_op plain_database) no_payments
      [Process (order_data_of ''O1'') 1000 True 2000 2001,
       Process (order_data_of ''O2'') 1000 True 2000 2001]"

text \<open>One product with ten units on hand, none reserved.\<close>

definition stocked :: ledger where
  "stocked =
     \<lparr>inventory = [''p1'' \<mapsto> \<lparr>productName = ''Widget'', quantity = 10, reserved = 0,
                                available = 10, price = 250, updatedAt = 0\<rparr>],
      reservations = [], outbox = []\<rparr>"

text \<open>Two reserved lines of one order, both with the deadline 900000.\<close>

definition two_lines :: ledger where
  "two_lines =
     \<lparr>inventory =
        [''p1'' \<mapsto> \<lparr>productName = ''Widget'', quantity = 10, reserved = 3, available = 7,
                     price = 250, updatedAt = 0\<rparr>,
         ''p2'' \<mapsto> \<lparr>productName = ''Gadget'', quantity = 5, reserved = 2, available = 3,
                     price = 400, updatedAt = 0\<rparr>],
      reservations =
        [\<lparr>r_orderId = ''O1'', r_productId = ''p1'', r_quantity = 3, r_status = ResReserved,
          r_createdAt = 0, r_expiresAt = 900000\<rparr>,
         \<lparr>r_orderId = ''O1'', r_productId = ''p2'', r_quantity = 2, r_status = ResReserved,
          r_createdAt = 0, r_expiresAt = 900000\<rparr>],
      outbox = []\<rparr>"

text \<open>A confirmed reservation of one order beside a reserved one of another.\<close>

definition mixed_ledger :: ledger where
  "mixed_ledger =
     \<lparr>inventory =
        [''p1'' \<mapsto> \<lparr>productName = ''Widget'', quantity = 6, reserved = 3, available = 3,
                     price = 250, updatedAt = 0\<rparr>],
      reservations =
        [\<lparr>r_orderId = ''O1'', r_productId = ''p1'', r_quantity = 4, r_status = ResConfirmed,
          r_createdAt = 1000, r_expiresAt = 901000\<rparr>,
         \<lparr>r_orderId = ''O2'', r_productId = ''p1'', r_quantity = 3, r_status = ResReserved,
          r_createdAt = 3000, r_expiresAt = 903000\<rparr>],
      outbox = []\<rparr>"

text \<open>
  One product of which three units are reserved, by a reservation that the order
  \<open>O2\<close> still holds.
\<close>

definition held_ledger :: ledger where
  "held_ledger =
     \<lparr>inventory = [''p1'' \<mapsto> \<lparr>productName = ''Widget'', quantity = 10, reserved = 3,
                                available = 7, price = 250, updatedAt = 0\<rparr>],
      reservations =
        [\<lparr>r_orderId = ''O2'', r_productId = ''p1'', r_quantity = 3, r_status = ResReserved,
          r_createdAt = 0, r_expiresAt = 900000\<rparr>],
      outbox = []\<rparr>"

text \<open>
  One product with \<open>2 ^ 53 + 2\<close> units on hand, \<open>2 ^ 53\<close> of them reserved; the
  three numbers are doubles.
\<close>

definition large_ledger :: ledger where
  "large_ledger =
     \<lparr>inventory = [''p1'' \<mapsto> \<lparr>productName = ''Widget'', quantity = 9007199254740994,
                                reserved = 9007199254740992, available = 2, price = 250,
                                updatedAt = 0\<rparr>],
      reservations = [], outbox = []\<rparr>"

section \<open>Quantities used in the statements\<close>

text \<open>The quantities a request asks of one product, in request order.\<close>

definition requested_of :: "string \<Rightarrow> line_item list \<Rightarrow> rat list" where
  "requested_of pid items = map li_quantity (filter (\<lambda>item. li_productId item = pid) items)"

text \<open>
  Adding the quantities \<open>qs\<close> to \<open>r\<close> one after the other never leaves the
  doubles: every partial sum is a finite double.
\<close>

fun exact_sums :: "rat \<Rightarrow> rat list \<Rightarrow> bool" where
  "exact_sums r [] = True"
| "exact_sums r (q # qs) = (representable (r + q) \<and> exact_sums (r + q) qs)"

text \<open>The order ids of a list of calls, each kept at its first occurrence only.\<close>

fun first_occurrences :: "string list \<Rightarrow> string list \<Rightarrow> string list" where
  "first_occurrences seen [] = []"
| "first_occurrences seen (x # xs) =
     (if x \<in> set seen then first_occurrences seen xs
      else x # first_occurrences (x # seen) xs)"

section \<open>Proof devices\<close>

text \<open>
  The loops of \<open>releaseReservation\<close> and of the confirm branch differ in the update
  of the inventory item and in the new status only; \<open>settle_one\<close> is their common
  shape. \<open>snapshot_of\<close> says that a list of documents is what a query returned and
  is still current, and \<open>settled\<close> that an order has no reservation left that its
  loops would change.
\<close>

definition settle_one ::
  "(inventory_item \<Rightarrow> rat \<Rightarrow> inventory_item) \<Rightarrow> reservation_status \<Rightarrow> ledger \<Rightarrow> nat \<times> reservation \<Rightarrow> ledger" where
  "settle_one upd st s d =
     (case inventory s (r_productId (snd d)) of
        None \<Rightarrow> s
      | Some doc \<Rightarrow>
          save_reservation (fst d) ((snd d)\<lparr>r_status := st\<rparr>)
            (save_inventory (r_productId (snd d)) (upd doc (r_quantity (snd d))) s))"

definition snapshot_of :: "ledger \<Rightarrow> (nat \<times> reservation) list \<Rightarrow> bool" where
  "snapshot_of s ds \<longleftrightarrow>
     distinct (map fst ds)
     \<and> (\<forall>d \<in> set ds. fst d < length (reservations s) \<and> reservations s ! fst d = snd d)"

definition settled :: "string \<Rightarrow> ledger \<Rightarrow> bool" where
  "settled orderId s \<longleftrightarrow>
     (\<forall>d \<in> set (find_reservations (\<lambda>r. r_orderId r = orderId \<and> r_status r = ResReserved) s).
        inventory s (r_productId (snd d)) = None)"

section \<open>Properties of the number model\<close>

text \<open>
  The exponent chosen by \<open>exponent\<close> is the one of the binade of its argument, whole
  numbers up to \<open>2 ^ 53\<close> in magnitude are doubles, and \<open>2 ^ 53 + 1\<close> is not: it
  lies halfway between two doubles and is rounded to the even one. One tenth is no
  double either; it is rounded to \<open>3602879701896397 / 2 ^ 55\<close>, the number that
  the literal \<open>0.1\<close> denotes.
\<close>

lemma two_powi_less: "(2::rat) powi m < 2 powi n \<longleftrightarrow> m < n"
proof
  assume "(2::rat) powi m < 2 powi n"
  show "m < n"
  proof (rule ccontr)
    assume "\<not> m < n"
    then have "n \<le> m" by simp
    then have "(2::rat) powi n \<le> 2 powi m" by (rule power_int_increasing) simp
    with \<open>(2::rat) powi m < 2 powi n\<close> show False by simp
  qed
next
  assume "m < n"
  then show "(2::rat) powi m < 2 powi n" by (rule power_int_strict_increasing) simp
qed

lemma two_powi_le: "(2::rat) powi m \<le> 2 powi n \<longleftrightarrow> m \<le> n"
  using two_powi_less [of n m] by (auto simp: not_less [symmetric])

lemma two_powi_pos: "0 < (2::rat) powi n"
  by simp

lemma times_two_powi_less:
  "a * 2 powi (- m) < 2 powi k \<longleftrightarrow> (a::rat) < 2 powi (k + m)"
proof -
  have "a * 2 powi (- m) < 2 powi k \<longleftrightarrow> a * 2 powi (- m) * 2 powi m < 2 powi k * 2 powi m"
    by (simp only: mult_less_cancel_right_pos [OF two_powi_pos])
  also have "a * 2 powi (- m) * 2 powi m = a"
    by (simp add: power_int_minus)
  also have "(2::rat) powi k * 2 powi m = 2 powi (k + m)"
    by (simp add: power_int_add)
  finally show ?thesis .
qed

lemma two_powi_le_times:
  "2 powi k \<le> a * 2 powi (- m) \<longleftrightarrow> 2 powi (k + m) \<le> (a::rat)"
  using times_two_powi_less [of a m k] by (simp add: not_less [symmetric])

lemma exponent_spec:
  assumes "0 < a"
  shows "min_exponent \<le> exponent a" and "a < 2 powi (exponent a + precision)"
    and "exponent a = min_exponent \<or> 2 powi (exponent a + precision - 1) \<le> a"
proof -
  let ?N = "\<lfloor>a * 2 powi (- min_exponent)\<rfloor>"
  let ?e' = "bitlen ?N - precision + min_exponent"
  show "min_exponent \<le> exponent a" by (simp add: exponent_def)
  have up: "a * 2 powi (- min_exponent) < of_int ?N + 1" by linarith
  have low: "of_int ?N \<le> a * 2 powi (- min_exponent)" by simp
  have N0: "0 \<le> ?N" using assms by simp
  have "?N < 2 ^ nat (bitlen ?N)"
  proof (cases "?N = 0")
    case True
    then show ?thesis by simp
  next
    case False
    with N0 have "0 < ?N" by linarith
    from bitlen_bounds [OF this] show ?thesis by simp
  qed
  then have "?N + 1 \<le> 2 ^ nat (bitlen ?N)" by simp
  then have "(of_int (?N + 1) :: rat) \<le> of_int (2 ^ nat (bitlen ?N))"
    by (rule of_int_le_iff [THEN iffD2])
  then have "of_int ?N + 1 \<le> (2::rat) powi (bitlen ?N)"
    using bitlen_nonneg [of ?N] by (simp add: power_int_def)
  with up have "a * 2 powi (- min_exponent) < 2 powi (bitlen ?N)" by simp
  then have a_up: "a < 2 powi (?e' + precision)"
    by (simp add: times_two_powi_less)
  have a_low: "2 powi (?e' + precision - 1) \<le> a" if pos: "0 < ?N"
  proof -
    from bitlen_bounds [OF pos] have "2 ^ nat (bitlen ?N - 1) \<le> ?N" by simp
    then have "(of_int (2 ^ nat (bitlen ?N - 1)) :: rat) \<le> of_int ?N"
      by (rule of_int_le_iff [THEN iffD2])
    moreover have "1 \<le> bitlen ?N"
      using pos bitlen_eq_zero_iff [of ?N] bitlen_nonneg [of ?N] by linarith
    ultimately have "(2::rat) powi (bitlen ?N - 1) \<le> of_int ?N"
      by (simp add: power_int_def)
    with low have "(2::rat) powi (bitlen ?N - 1) \<le> a * 2 powi (- min_exponent)"
      by (rule order_trans [rotated])
    then have "2 powi (bitlen ?N - 1 + min_exponent) \<le> a"
      by (simp only: two_powi_le_times)
    then show ?thesis by (simp add: algebra_simps)
  qed
  show "a < 2 powi (exponent a + precision)"
  proof (cases "min_exponent \<le> ?e'")
    case True
    then have "exponent a = ?e'" by (simp add: exponent_def)
    with a_up show ?thesis by simp
  next
    case False
    then have e: "exponent a = min_exponent" by (simp add: exponent_def)
    from False have "(2::rat) powi (?e' + precision) \<le> 2 powi (min_exponent + precision)"
      by (simp add: two_powi_le)
    with a_up e show ?thesis by simp
  qed
  show "exponent a = min_exponent \<or> 2 powi (exponent a + precision - 1) \<le> a"
  proof (cases "min_exponent < ?e'")
    case True
    then have e: "exponent a = ?e'" by (simp add: exponent_def)
    have "0 < precision" by (simp add: precision_def)
    with True have "0 < bitlen ?N" by simp
    then have "0 < ?N" using bitlen_eq_zero_iff [of ?N] by linarith
    from a_low [OF this] e show ?thesis by simp
  next
    case False
    then show ?thesis by (simp add: exponent_def)
  qed
qed

lemma exponent_unique:
  assumes "0 < a" and "min_exponent \<le> e" and "a < 2 powi (e + precision)"
    and "e = min_exponent \<or> 2 powi (e + precision - 1) \<le> a"
  shows "exponent a = e"
proof (rule antisym)
  note s = exponent_spec [OF assms(1)]
  show "exponent a \<le> e"
  proof (rule ccontr)
    assume "\<not> exponent a \<le> e"
    then have lt: "e < exponent a" by simp
    with assms(2) s(3) have "2 powi (exponent a + precision - 1) \<le> a" by auto
    with assms(3) have "(2::rat) powi (exponent a + precision - 1) < 2 powi (e + precision)" by simp
    then show False using lt by (simp add: two_powi_less)
  qed
  show "e \<le> exponent a"
  proof (rule ccontr)
    assume "\<not> e \<le> exponent a"
    then have lt: "exponent a < e" by simp
    with s(1) assms(4) have "2 powi (e + precision - 1) \<le> a" by auto
    with s(2) have "(2::rat) powi (e + precision - 1) < 2 powi (exponent a + precision)" by simp
    then show False using lt by (simp add: two_powi_less)
  qed
qed

lemma rne_of_int [simp]: "rne (of_int n) = n"
  by (simp add: rne_def)

lemma round_double_scaled_int:
  assumes "x \<noteq> 0" and "\<bar>x\<bar> / 2 powi exponent \<bar>x\<bar> = of_int n"
  shows "round_double x = x"
proof -
  have "of_int n * 2 powi exponent \<bar>x\<bar> = \<bar>x\<bar>"
    using assms(2) [symmetric] by simp
  then have "round_double x = sgn x * \<bar>x\<bar>"
    using assms by (simp add: round_double_def)
  then show ?thesis by (simp add: mult_sgn_abs)
qed

lemma whole_over_two_powi:
  "e \<le> 0 \<Longrightarrow> (of_int m :: rat) / 2 powi e = of_int (m * 2 ^ nat (- e))"
  by (simp add: power_int_def field_simps)

lemma scaled_whole:
  assumes pos: "0 < a" and whole: "a = of_int m" and le: "a \<le> 2 powi 53"
  shows "\<exists>k. a / 2 powi exponent a = of_int k"
proof (cases "exponent a \<le> 0")
  case True
  from whole_over_two_powi [OF True, of m] whole show ?thesis by blast
next
  case False
  note s = exponent_spec [OF pos]
  from False have "exponent a \<noteq> min_exponent" by (simp add: min_exponent_def)
  with s(3) have low: "2 powi (exponent a + precision - 1) \<le> a" by blast
  from low le have "(2::rat) powi (exponent a + precision - 1) \<le> 2 powi 53"
    by (rule order_trans)
  then have "exponent a + precision - 1 \<le> 53" by (simp only: two_powi_le)
  with False have e1: "exponent a = 1" by (simp add: precision_def)
  have "exponent a + precision - 1 = 53" by (simp add: e1 precision_def)
  with low have "2 powi 53 \<le> a" by simp
  with le have a53: "a = 2 powi 53" by (rule order_antisym)
  have "a / 2 powi exponent a = a / 2 powi 1" by (simp only: e1)
  also have "\<dots> = 2 powi 53 / 2 powi 1" by (simp only: a53)
  also have "\<dots> = of_int 4503599627370496" by simp
  finally show ?thesis ..
qed

lemma round_double_of_int:
  assumes "\<bar>n\<bar> \<le> 9007199254740992"
  shows "round_double (of_int n) = of_int n"
proof (cases "n = 0")
  case True
  then show ?thesis by (simp add: round_double_def)
next
  case False
  let ?a = "\<bar>of_int n :: rat\<bar>"
  have a: "?a = of_int \<bar>n\<bar>" by simp
  from False have pos: "0 < ?a" by simp
  from assms have "(of_int \<bar>n\<bar> :: rat) \<le> of_int 9007199254740992"
    by (rule of_int_le_iff [THEN iffD2])
  also have "(of_int 9007199254740992 :: rat) = 2 powi 53" by simp
  finally have "?a \<le> 2 powi 53" by (simp only: a)
  from scaled_whole [OF pos a this] obtain k where "?a / 2 powi exponent ?a = of_int k" ..
  moreover from False have "(of_int n :: rat) \<noteq> 0" by simp
  ultimately show ?thesis by (intro round_double_scaled_int)
qed

lemma round_double_whole:
  assumes "x \<in> \<int>" and "\<bar>x\<bar> \<le> 9007199254740992"
  shows "round_double x = x"
proof -
  from assms(1) obtain n where x: "x = of_int n" by (auto elim: Ints_cases)
  with assms(2) have "(of_int \<bar>n\<bar> :: rat) \<le> of_int 9007199254740992" by simp
  then have "\<bar>n\<bar> \<le> 9007199254740992" by (simp only: of_int_le_iff)
  from round_double_of_int [OF this] x show ?thesis by simp
qed

lemma whole_below_overflow_bound: "(9007199254740992::rat) < overflow_bound"
proof -
  have "(2::rat) powi 53 < 2 powi 1024" by (rule two_powi_less [THEN iffD2]) simp
  moreover have "(2::rat) powi 53 = 9007199254740992" by simp
  ultimately show ?thesis by (simp only: overflow_bound_def)
qed

lemma representable_whole:
  assumes "x \<in> \<int>" and "\<bar>x\<bar> \<le> 9007199254740992"
  shows "representable x"
proof -
  from assms have "round_double x = x" by (rule round_double_whole)
  moreover from assms(2) whole_below_overflow_bound have "\<bar>x\<bar> < overflow_bound"
    by (rule le_less_trans)
  ultimately show ?thesis by (simp only: representable_def)
qed

lemma round_double_beyond_53_bits: "round_double 9007199254740993 = 9007199254740992"
proof -
  have e: "exponent 9007199254740993 = 1"
    by (rule exponent_unique) (simp_all add: min_exponent_def precision_def)
  have "\<lfloor>9007199254740993 / 2 :: rat\<rfloor> = 4503599627370496"
    by (rule floor_unique) simp_all
  then have "rne (9007199254740993 / 2) = 4503599627370496"
    by (simp add: rne_def Let_def)
  with e show ?thesis by (simp add: round_double_def)
qed

lemma round_double_tenth: "round_double (1 / 10) = 3602879701896397 / 36028797018963968"
proof -
  have e: "exponent (1 / 10) = - 56"
    by (rule exponent_unique) (simp_all add: min_exponent_def precision_def power_int_minus)
  have p: "(2::rat) powi (- 56) = 1 / 72057594037927936"
    by (simp add: power_int_minus)
  have "\<lfloor>72057594037927936 / 10 :: rat\<rfloor> = 7205759403792793"
    by (rule floor_unique) simp_all
  then have "rne (72057594037927936 / 10) = 7205759403792794"
    by (simp add: rne_def Let_def)
  with e p show ?thesis by (simp add: round_double_def)
qed

lemma js_add_exact: "representable (a + b) \<Longrightarrow> js_add a b = a + b"
  by (simp add: js_add_def representable_def)

lemma js_sub_exact: "representable (a - b) \<Longrightarrow> js_sub a b = a - b"
  by (simp add: js_sub_def representable_def)

lemma exact_sums_foldl: "exact_sums r qs \<Longrightarrow> foldl js_add r qs = r + sum_list qs"
  by (induction qs arbitrary: r) (simp_all add: js_add_exact add.assoc)

section \<open>Properties of the order service\<close>

text \<open>
  C2 (as amended). The handlers do not look at the status an order has: a
  \<open>payment.processed\<close> event sets the addressed order to confirmed (status
  \<open>success\<close>) or failed (any other status), an \<open>inventory.updated\<close> event with status
  \<open>insufficient\<close> sets it to cancelled, whatever the status was before, terminal or not.
  Every other order, and an order addressed by an \<open>inventory.updated\<close> event with another
  status, keeps its status. So the only statuses ever written are confirmed, failed and
  cancelled, and delivering the same event a second time leaves the status as the first
  delivery set it.
\<close>

theorem order_status_after_event:
  assumes "db oid = Some ord"
  shows "status_of (order_handlePaymentProcessed e now db) oid =
           Some (if pp_orderId e \<noteq> oid then o_status ord
                 else if pp_status e = ''success'' then OrderConfirmed else OrderFailed)
       \<and> status_of (order_handleInventoryUpdated u now db) oid =
           Some (if iu_orderId u = oid \<and> iu_status u = ''insufficient'' then OrderCancelled
                 else o_status ord)
       \<and> status_of (order_handlePaymentProcessed e now' (order_handlePaymentProcessed e now db)) oid =
           status_of (order_handlePaymentProcessed e now db) oid
       \<and> status_of (order_handleInventoryUpdated u now' (order_handleInventoryUpdated u now db)) oid =
           status_of (order_handleInventoryUpdated u now db) oid"
  using assms
  by (auto simp: status_of_def order_handlePaymentProcessed_def order_handleInventoryUpdated_def
      Let_def split: option.splits)

theorem order_status_after_event_witness:
  "[''O1'' \<mapsto> order_in OrderPending] ''O1'' = Some (order_in OrderPending)
   \<and> status_of (order_handlePaymentProcessed (payment_event ''O1'' ''failed'') 7
         [''O1'' \<mapsto> order_in OrderPending]) ''O1'' = Some OrderFailed
   \<and> status_of (order_handleInventoryUpdated (shortfall_event ''O1'') 7
         [''O1'' \<mapsto> order_in OrderPending]) ''O1'' = Some OrderCancelled"
  using order_status_after_event [of "[''O1'' \<mapsto> order_in OrderPending]" "''O1''"
      "order_in OrderPending" "payment_event ''O1'' ''failed''" 7 "shortfall_event ''O1''" 7]
  by (simp add: order_in_def payment_event_def shortfall_event_def)

text \<open>
  The claim C2 as stated fails: a cancelled order that receives a successful
  \<open>payment.processed\<close> event becomes confirmed.
\<close>

theorem terminal_order_overwritten:
  "status_of [''O1'' \<mapsto> order_in OrderCancelled] ''O1'' = Some OrderCancelled
   \<and> status_of (fst (order_consume_payment_processed (Some (payment_event ''O1'' ''success'')) 7
         [''O1'' \<mapsto> order_in OrderCancelled])) ''O1'' = Some OrderConfirmed"
  by (simp add: status_of_def order_consume_payment_processed_def
      order_handlePaymentProcessed_def order_in_def payment_event_def)

text \<open>
  C7 (as amended). A \<open>payment.processed\<close> event for an order id without a stored order
  changes nothing and is acknowledged: the handler returns at once and the consumer
  acknowledges every message whose handler returned.
\<close>

theorem unknown_order_acknowledged:
  "db (pp_orderId e) = None \<Longrightarrow> order_consume_payment_processed (Some e) now db = (db, Ack)"
  by (simp add: order_consume_payment_processed_def order_handlePaymentProcessed_def)

theorem unknown_order_acknowledged_witness:
  "[''O1'' \<mapsto> order_in OrderPending] (pp_orderId (payment_event ''O2'' ''success'')) = None
   \<and> order_consume_payment_processed (Some (payment_event ''O2'' ''success'')) 7
        [''O1'' \<mapsto> order_in OrderPending] = ([''O1'' \<mapsto> order_in OrderPending], Ack)"
  using unknown_order_acknowledged [of "[''O1'' \<mapsto> order_in OrderPending]"
      "payment_event ''O2'' ''success''" 7]
  by (simp add: payment_event_def)

text \<open>
  The claim C7 as stated fails: with no order stored at all, a successful payment event
  is acknowledged and the store stays empty, so the transition is lost.
\<close>

theorem early_payment_event_dropped:
  "snd (order_consume_payment_processed (Some (payment_event ''O1'' ''success'')) 7 Map.empty) = Ack
   \<and> fst (order_consume_payment_processed (Some (payment_event ''O1'' ''success'')) 7 Map.empty) ''O1'' = None"
  by (simp add: order_consume_payment_processed_def order_handlePaymentProcessed_def
      payment_event_def)

section \<open>Properties of the payment service\<close>

lemma string_of_nat_samples:
  "string_of_nat 1000 = ''1000''" "string_of_nat 2000 = ''2000''" "string_of_nat 3000 = ''3000''"
  "string_of_nat 4000 = ''4000''" "string_of_nat 5000 = ''5000''" "string_of_nat 6000 = ''6000''"
  by (simp_all add: string_of_nat.simps)




lemma processOrderPayment_stored_id:
  assumes "stores_row db (payment_values od t_id ok t_txn) = Some stored"
    and "pay_payment_id stored \<in> pay_payment_id ` set (payments s)"
  shows "processOrderPayment db od t_id ok t_txn t_event s = s"
  using assms by (simp add: processOrderPayment_def insert_payment_def)

lemma processOrderPayment_rejected:
  "stores_row db (payment_values od t_id ok t_txn) = None \<Longrightarrow>
     processOrderPayment db od t_id ok t_txn t_event s = s"
  by (simp add: processOrderPayment_def insert_payment_def)

lemma first_payment:
  "processOrderPayment plain_database (order_data_of ''O1'') 1000 True 2000 2001 no_payments =
     \<lparr>payments = [payment_row ''PAY-1000'' ''O1'' ''success'' (Some ''TXN-2000'')],
      payment_queue =
        [\<lparr>pp_orderId = ''O1'', pp_paymentId = ''PAY-1000'', pp_status = ''success'',
          pp_amount = 1000, pp_transactionId = Some ''TXN-2000'', pp_timestamp = 2001\<rparr>]\<rparr>"
  by (simp add: processOrderPayment_def insert_payment_def payment_values_def
      payment_event_of_def plain_database_def no_payments_def order_data_of_def payment_row_def
      string_of_nat_samples Let_def)

text \<open>
  C8. The payment id of an invocation is \<open>PAY-\<close> followed by the clock reading,
  which is not fresh when a stored payment was started in the same millisecond. Of two
  invocations for two orders that read the same clock value, the first persists its row
  and emits its event; the insert of the second violates the \<open>UNIQUE\<close> constraint
  of \<open>payment_id\<close>, the exception is caught and logged, and the second order gets
  no row and no event.
\<close>

theorem same_millisecond_payment_lost:
  "payments (processOrderPayment plain_database (order_data_of ''O1'') 1000 True 2000 2001
      no_payments) = [payment_row ''PAY-1000'' ''O1'' ''success'' (Some ''TXN-2000'')]
   \<and> processOrderPayment plain_database (order_data_of ''O2'') 1000 True 2000 2001
        (processOrderPayment plain_database (order_data_of ''O1'') 1000 True 2000 2001 no_payments) =
      processOrderPayment plain_database (order_data_of ''O1'') 1000 True 2000 2001 no_payments
   \<and> map pay_order_id (payments same_millisecond) = [''O1'']
   \<and> map pp_orderId (payment_queue same_millisecond) = [''O1'']"
  by (simp add: same_millisecond_def first_payment)
     (simp add: processOrderPayment_def insert_payment_def payment_values_def
        plain_database_def order_data_of_def payment_row_def string_of_nat_samples Let_def)










section \<open>Properties of the reserve endpoint\<close>

lemma requested_of_simps [simp]:
  "requested_of pid [] = []"
  "requested_of pid (item # items) =
     (if li_productId item = pid then li_quantity item # requested_of pid items
      else requested_of pid items)"
  by (simp_all add: requested_of_def)

lemma requested_of_absent:
  "pid \<notin> li_productId ` set items \<Longrightarrow> requested_of pid items = []"
  by (induction items) auto

lemma check_availability_eq:
  "check_availability stock items =
     map (\<lambda>item. \<lparr>sf_productId = li_productId item, sf_requested = li_quantity item,
                   sf_available = (case stock (li_productId item) of None \<Rightarrow> 0
                                   | Some doc \<Rightarrow> available doc)\<rparr>)
       (filter (\<lambda>item. case stock (li_productId item) of None \<Rightarrow> True
                        | Some doc \<Rightarrow> available doc < li_quantity item) items)"
  by (induction items) (auto split: option.splits)

lemma check_availability_empty:
  "check_availability stock items = [] \<longleftrightarrow>
     (\<forall>item \<in> set items. \<exists>doc. stock (li_productId item) = Some doc
         \<and> \<not> available doc < li_quantity item)"
  by (induction items) (auto split: option.splits)

lemma reserve_loop_appends:
  "\<exists>rs. reservations (fst (reserve_loop orderId now items acc s)) = reservations s @ rs"
proof (induction items arbitrary: s acc)
  case Nil
  show ?case by simp
next
  case (Cons item items)
  show ?case
  proof (cases "inventory s (li_productId item)")
    case None
    then show ?thesis by simp
  next
    case (Some doc)
    let ?s1 = "save_inventory (li_productId item)
                 (doc\<lparr>reserved := js_add (reserved doc) (li_quantity item)\<rparr>) s"
    let ?r = "new_reservation orderId now item"
    have res1: "reservations ?s1 = reservations s" by (simp add: save_inventory_def)
    show ?thesis
    proof (cases "valid_reservation ?r")
      case False
      with Some res1 show ?thesis by (simp add: Let_def)
    next
      case True
      from Cons.IH [of "acc @ [?r]" "?s1\<lparr>reservations := reservations ?s1 @ [?r]\<rparr>"]
      obtain rs where "reservations (fst (reserve_loop orderId now items (acc @ [?r])
          (?s1\<lparr>reservations := reservations ?s1 @ [?r]\<rparr>))) = (reservations s @ [?r]) @ rs"
        by (auto simp: res1)
      with Some True show ?thesis by (simp add: Let_def)
    qed
  qed
qed

lemma reserve_loop_closed:
  assumes "\<forall>item \<in> set items. inventory s (li_productId item) \<noteq> None"
    and "orderId \<noteq> []" and "\<forall>item \<in> set items. li_productId item \<noteq> []"
  shows "inventory (fst (reserve_loop orderId now items acc s)) pid =
           map_option
            (\<lambda>doc. if pid \<in> li_productId ` set items
                    then doc\<lparr>reserved := foldl js_add (reserved doc) (requested_of pid items),
                             available := js_sub (quantity doc)
                               (foldl js_add (reserved doc) (requested_of pid items))\<rparr>
                    else doc) (inventory s pid)
       \<and> reservations (fst (reserve_loop orderId now items acc s)) =
           reservations s @ map (new_reservation orderId now) items
       \<and> outbox (fst (reserve_loop orderId now items acc s)) = outbox s
       \<and> snd (reserve_loop orderId now items acc s) =
           Some (acc @ map (new_reservation orderId now) items)"
  using assms(1,3)
proof (induction items arbitrary: s acc)
  case Nil
  show ?case by (simp add: option.map_ident)
next
  case (Cons item items)
  from Cons.prems obtain doc where doc: "inventory s (li_productId item) = Some doc"
    by auto
  let ?s2 = "(save_inventory (li_productId item)
                (doc\<lparr>reserved := js_add (reserved doc) (li_quantity item)\<rparr>) s)
        \<lparr>reservations := reservations s @ [new_reservation orderId now item]\<rparr>"
  from Cons.prems assms(2) have "valid_reservation (new_reservation orderId now item)"
    by (simp add: valid_reservation_def new_reservation_def)
  then have step: "reserve_loop orderId now (item # items) acc s =
      reserve_loop orderId now items (acc @ [new_reservation orderId now item]) ?s2"
    by (simp add: doc Let_def save_inventory_def)
  have "\<forall>x \<in> set items. inventory ?s2 (li_productId x) \<noteq> None"
    using Cons.prems by (simp add: save_inventory_def)
  moreover from Cons.prems have "\<forall>x \<in> set items. li_productId x \<noteq> []" by simp
  ultimately show ?case
    unfolding step using doc Cons.IH [of ?s2 "acc @ [new_reservation orderId now item]"]
    by (cases "inventory s pid")
       (auto simp: save_inventory_def pre_save_def requested_of_absent)
qed

lemma new_reservation_eq:
  "new_reservation orderId now =
     (\<lambda>item. \<lparr>r_orderId = orderId, r_productId = li_productId item,
               r_quantity = li_quantity item, r_status = ResReserved, r_createdAt = now,
               r_expiresAt = now + 900000\<rparr>)"
  by (rule ext) (simp add: new_reservation_def)

lemma reserve_insufficient:
  assumes "check_availability (inventory s) items \<noteq> []"
  shows "reserve orderId items now s =
     (s\<lparr>outbox := outbox s @
           [\<lparr>iu_orderId = orderId, iu_status = ''insufficient'',
             iu_items = Some (check_availability (inventory s) items), iu_timestamp = now\<rparr>]\<rparr>,
      ReserveInsufficient (check_availability (inventory s) items))"
  using assms by (simp add: reserve_def Let_def)

lemma reserve_sufficient:
  assumes "check_availability (inventory s) items = []"
    and "orderId \<noteq> []" and "\<forall>item \<in> set items. li_productId item \<noteq> []"
  shows "reserve orderId items now s =
     (fst (reserve_loop orderId now items [] s),
      ReserveOk (map (\<lambda>item. (li_productId item, li_quantity item, now + 900000)) items))"
proof -
  from assms(1) have "\<forall>item \<in> set items. inventory s (li_productId item) \<noteq> None"
    by (auto simp: check_availability_empty)
  from reserve_loop_closed [OF this assms(2,3), of now "[]"] assms(1) show ?thesis
    by (cases "reserve_loop orderId now items [] s")
       (simp add: reserve_def new_reservation_def comp_def)
qed

text \<open>
  C3 (as amended). A call of the reserve endpoint with a line item that is short (its
  product is missing, or its quantity exceeds the available quantity) changes no
  inventory item and no reservation, and answers with one entry per short line item, in
  request order, giving the product, the requested and the available quantity. A call
  without a short line item, for a non-empty order id and non-empty product ids, appends
  one reservation per line item (not per product), for this order and the item's product
  and quantity, with status reserved and a deadline 900000 ms (15 minutes) after its
  creation time, and answers with the created reservations. It leaves \<open>quantity\<close>
  of every product as it was, recomputes \<open>available\<close> of the products it names,
  leaves the other products alone, and adds to \<open>reserved\<close> of a product the
  quantities requested of it, which gives their exact sum when every partial sum is a
  finite double.
\<close>

theorem reserve_all_or_nothing:
  assumes "reserve orderId items now s = (s', resp)"
  shows "if \<exists>item \<in> set items.
              (case inventory s (li_productId item) of
                 None \<Rightarrow> True | Some doc \<Rightarrow> available doc < li_quantity item)
         then inventory s' = inventory s \<and> reservations s' = reservations s
            \<and> resp = ReserveInsufficient
                 (map (\<lambda>item. \<lparr>sf_productId = li_productId item, sf_requested = li_quantity item,
                                sf_available = (case inventory s (li_productId item) of
                                                  None \<Rightarrow> 0 | Some doc \<Rightarrow> available doc)\<rparr>)
                    (filter (\<lambda>item. case inventory s (li_productId item) of
                                       None \<Rightarrow> True | Some doc \<Rightarrow> available doc < li_quantity item)
                       items))
         else orderId \<noteq> [] \<and> (\<forall>item \<in> set items. li_productId item \<noteq> []) \<longrightarrow>
              reservations s' =
                reservations s @
                map (\<lambda>item. \<lparr>r_orderId = orderId, r_productId = li_productId item,
                              r_quantity = li_quantity item, r_status = ResReserved,
                              r_createdAt = now, r_expiresAt = now + 900000\<rparr>) items
            \<and> resp = ReserveOk (map (\<lambda>item. (li_productId item, li_quantity item, now + 900000)) items)
            \<and> (\<forall>pid. inventory s pid = None \<longrightarrow> inventory s' pid = None)
            \<and> (\<forall>pid doc. inventory s pid = Some doc \<longrightarrow>
                  (\<exists>doc'. inventory s' pid = Some doc'
                     \<and> quantity doc' = quantity doc
                     \<and> (if pid \<in> li_productId ` set items
                         then available doc' = js_sub (quantity doc') (reserved doc')
                         else doc' = doc)
                     \<and> (exact_sums (reserved doc) (requested_of pid items) \<longrightarrow>
                          reserved doc' = reserved doc + sum_list (requested_of pid items))))"
proof (cases "check_availability (inventory s) items = []")
  case True
  then have all: "\<forall>item \<in> set items. inventory s (li_productId item) \<noteq> None"
    and none: "\<not> (\<exists>item \<in> set items.
              (case inventory s (li_productId item) of
                 None \<Rightarrow> True | Some doc \<Rightarrow> available doc < li_quantity item))"
    by (auto simp: check_availability_empty)
  have "reservations s' =
                reservations s @
                map (\<lambda>item. \<lparr>r_orderId = orderId, r_productId = li_productId item,
                              r_quantity = li_quantity item, r_status = ResReserved,
                              r_createdAt = now, r_expiresAt = now + 900000\<rparr>) items
            \<and> resp = ReserveOk (map (\<lambda>item. (li_productId item, li_quantity item, now + 900000)) items)
            \<and> (\<forall>pid. inventory s pid = None \<longrightarrow> inventory s' pid = None)
            \<and> (\<forall>pid doc. inventory s pid = Some doc \<longrightarrow>
                  (\<exists>doc'. inventory s' pid = Some doc'
                     \<and> quantity doc' = quantity doc
                     \<and> (if pid \<in> li_productId ` set items
                         then available doc' = js_sub (quantity doc') (reserved doc')
                         else doc' = doc)
                     \<and> (exact_sums (reserved doc) (requested_of pid items) \<longrightarrow>
                          reserved doc' = reserved doc + sum_list (requested_of pid items))))"
    if ids: "orderId \<noteq> []" "\<forall>item \<in> set items. li_productId item \<noteq> []"
  proof -
    from reserve_sufficient [OF True ids, of now] assms
    have s': "s' = fst (reserve_loop orderId now items [] s)"
      and resp: "resp = ReserveOk (map (\<lambda>item. (li_productId item, li_quantity item, now + 900000)) items)"
      by simp_all
    note closed = reserve_loop_closed [OF all ids, of now "[]"]
    from closed have inv: "inventory s' pid =
           map_option
            (\<lambda>doc. if pid \<in> li_productId ` set items
                    then doc\<lparr>reserved := foldl js_add (reserved doc) (requested_of pid items),
                             available := js_sub (quantity doc)
                               (foldl js_add (reserved doc) (requested_of pid items))\<rparr>
                    else doc) (inventory s pid)" for pid
      unfolding s' by blast
    from closed have res: "reservations s' = reservations s @ map (new_reservation orderId now) items"
      unfolding s' by blast
    show ?thesis
    proof (intro conjI allI impI)
      from res show "reservations s' =
                reservations s @
                map (\<lambda>item. \<lparr>r_orderId = orderId, r_productId = li_productId item,
                              r_quantity = li_quantity item, r_status = ResReserved,
                              r_createdAt = now, r_expiresAt = now + 900000\<rparr>) items"
        by (simp only: new_reservation_eq)
      from resp show "resp = ReserveOk (map (\<lambda>item. (li_productId item, li_quantity item, now + 900000)) items)" .
    next
      fix pid assume "inventory s pid = None"
      with inv [of pid] show "inventory s' pid = None" by simp
    next
      fix pid doc assume doc: "inventory s pid = Some doc"
      show "\<exists>doc'. inventory s' pid = Some doc'
                     \<and> quantity doc' = quantity doc
                     \<and> (if pid \<in> li_productId ` set items
                         then available doc' = js_sub (quantity doc') (reserved doc')
                         else doc' = doc)
                     \<and> (exact_sums (reserved doc) (requested_of pid items) \<longrightarrow>
                          reserved doc' = reserved doc + sum_list (requested_of pid items))"
      proof (cases "pid \<in> li_productId ` set items")
        case True
        with inv [of pid] doc show ?thesis by (simp add: exact_sums_foldl)
      next
        case False
        with inv [of pid] doc show ?thesis by (simp add: requested_of_absent)
      qed
    qed
  qed
  with none show ?thesis by simp
next
  case False
  then have some: "\<exists>item \<in> set items.
              (case inventory s (li_productId item) of
                 None \<Rightarrow> True | Some doc \<Rightarrow> available doc < li_quantity item)"
    by (auto simp: check_availability_empty split: option.splits)
  from reserve_insufficient [OF False, of orderId now] assms some show ?thesis
    by (auto simp: check_availability_eq)
qed

theorem reserve_all_or_nothing_witness:
  "reservations (fst (reserve ''O1'' [\<lparr>li_productId = ''p1'', li_quantity = 4\<rparr>] 1000 stocked)) =
     [\<lparr>r_orderId = ''O1'', r_productId = ''p1'', r_quantity = 4, r_status = ResReserved,
       r_createdAt = 1000, r_expiresAt = 901000\<rparr>]
   \<and> snd (reserve ''O1'' [\<lparr>li_productId = ''p1'', li_quantity = 4\<rparr>] 1000 stocked) =
       ReserveOk [(''p1'', 4, 901000)]
   \<and> (\<exists>doc'. inventory (fst (reserve ''O1'' [\<lparr>li_productId = ''p1'', li_quantity = 4\<rparr>] 1000 stocked))
                 ''p1'' = Some doc'
         \<and> quantity doc' = 10 \<and> reserved doc' = 4
         \<and> available doc' = js_sub (quantity doc') (reserved doc'))"
  using reserve_all_or_nothing [where orderId = "''O1''"
      and items = "[\<lparr>li_productId = ''p1'', li_quantity = 4\<rparr>]" and now = 1000 and s = stocked,
      OF prod.collapse [symmetric]]
  by (simp add: stocked_def) (fastforce simp: representable_whole)

text \<open>
  The claim C3 as stated fails in two ways. A request that is satisfiable and names a
  product on two lines gets two reservations for the same order and product, one per
  line. And one unit reserved on top of \<open>2 ^ 53\<close> reserved units leaves
  \<open>reserved\<close> as it was, since the sum is no double, while the call answers with
  the created reservation.
\<close>

theorem reserve_as_claimed_fails:
  "map (\<lambda>r. (r_orderId r, r_productId r))
      (reservations (fst (reserve ''O1''
         [\<lparr>li_productId = ''p1'', li_quantity = 2\<rparr>, \<lparr>li_productId = ''p1'', li_quantity = 3\<rparr>]
         1000 stocked))) = [(''O1'', ''p1''), (''O1'', ''p1'')]
   \<and> map_option reserved (inventory large_ledger ''p1'') = Some 9007199254740992
   \<and> snd (reserve ''O1'' [\<lparr>li_productId = ''p1'', li_quantity = 1\<rparr>] 1000 large_ledger) =
       ReserveOk [(''p1'', 1, 901000)]
   \<and> map_option reserved
        (inventory (fst (reserve ''O1'' [\<lparr>li_productId = ''p1'', li_quantity = 1\<rparr>] 1000 large_ledger))
           ''p1'')
       = Some 9007199254740992"
  by (simp add: reserve_def stocked_def large_ledger_def save_inventory_def pre_save_def
      new_reservation_def valid_reservation_def js_add_def js_sub_def round_double_whole
      round_double_beyond_53_bits Let_def)

text \<open>
  C10. A line item whose product has no inventory document is reported as insufficient
  with available 0, in a normal shortfall answer, and the call changes neither the
  inventory nor the reservations.
\<close>

theorem missing_product_is_shortfall:
  assumes "item \<in> set items" and "inventory s (li_productId item) = None"
    and "reserve orderId items now s = (s', resp)"
  shows "inventory s' = inventory s \<and> reservations s' = reservations s
       \<and> (\<exists>sf. resp = ReserveInsufficient sf
             \<and> \<lparr>sf_productId = li_productId item, sf_requested = li_quantity item,
                 sf_available = 0\<rparr> \<in> set sf)"
proof -
  let ?entry = "\<lparr>sf_productId = li_productId item, sf_requested = li_quantity item,
                 sf_available = 0\<rparr>"
  from assms(1,2) have mem: "?entry \<in> set (check_availability (inventory s) items)"
    unfolding check_availability_eq by (auto simp: image_iff intro!: bexI [of _ item])
  then have "check_availability (inventory s) items \<noteq> []" by auto
  from reserve_insufficient [OF this, of orderId now] assms(3) mem show ?thesis
    by auto
qed

theorem missing_product_is_shortfall_witness:
  "\<lparr>li_productId = ''p9'', li_quantity = 1\<rparr> \<in>
      set [\<lparr>li_productId = ''p1'', li_quantity = 2\<rparr>, \<lparr>li_productId = ''p9'', li_quantity = 1\<rparr>]
   \<and> inventory stocked ''p9'' = None
   \<and> inventory (fst (reserve ''O2''
        [\<lparr>li_productId = ''p1'', li_quantity = 2\<rparr>, \<lparr>li_productId = ''p9'', li_quantity = 1\<rparr>]
        1000 stocked)) = inventory stocked
   \<and> reservations (fst (reserve ''O2''
        [\<lparr>li_productId = ''p1'', li_quantity = 2\<rparr>, \<lparr>li_productId = ''p9'', li_quantity = 1\<rparr>]
        1000 stocked)) = []
   \<and> (\<exists>sf. snd (reserve ''O2''
        [\<lparr>li_productId = ''p1'', li_quantity = 2\<rparr>, \<lparr>li_productId = ''p9'', li_quantity = 1\<rparr>]
        1000 stocked) = ReserveInsufficient sf
        \<and> \<lparr>sf_productId = ''p9'', sf_requested = 1, sf_available = 0\<rparr> \<in> set sf)"
  using missing_product_is_shortfall [where item = "\<lparr>li_productId = ''p9'', li_quantity = 1\<rparr>"
      and items = "[\<lparr>li_productId = ''p1'', li_quantity = 2\<rparr>, \<lparr>li_productId = ''p9'', li_quantity = 1\<rparr>]"
      and s = stocked and orderId = "''O2''" and now = 1000, OF _ _ prod.collapse [symmetric]]
  by (simp add: stocked_def)

section \<open>Properties of the confirm and release loops\<close>

lemma release_one_settle:
  "release_one = settle_one (\<lambda>doc q. doc\<lparr>reserved := js_sub (reserved doc) q\<rparr>) ResReleased"
  by (intro ext) (simp add: release_one_def settle_one_def)

lemma confirm_one_settle:
  "confirm_one =
     settle_one (\<lambda>doc q. doc\<lparr>quantity := js_sub (quantity doc) q, reserved := js_sub (reserved doc) q\<rparr>) ResConfirmed"
  by (intro ext) (simp add: confirm_one_def settle_one_def)

lemma settle_one_basic:
  "outbox (settle_one upd st s d) = outbox s"
  "length (reservations (settle_one upd st s d)) = length (reservations s)"
  "(inventory (settle_one upd st s d) p = None) = (inventory s p = None)"
  by (auto simp: settle_one_def save_inventory_def save_reservation_def split: option.splits)

lemma settle_one_missing:
  "inventory s (r_productId (snd d)) = None \<Longrightarrow> settle_one upd st s d = s"
  by (simp add: settle_one_def)

lemma settle_one_nth_other:
  "j \<noteq> fst d \<Longrightarrow> reservations (settle_one upd st s d) ! j = reservations s ! j"
  by (simp add: settle_one_def save_inventory_def save_reservation_def split: option.splits)

lemma settle_one_nth_same:
  "fst d < length (reservations s) \<Longrightarrow> inventory s (r_productId (snd d)) \<noteq> None \<Longrightarrow>
     reservations (settle_one upd st s d) ! fst d = (snd d)\<lparr>r_status := st\<rparr>"
  by (auto simp: settle_one_def save_inventory_def save_reservation_def split: option.splits)

lemma in_find_reservations:
  "d \<in> set (find_reservations P s) \<longleftrightarrow>
     fst d < length (reservations s) \<and> reservations s ! fst d = snd d \<and> P (snd d)"
  by (auto simp: find_reservations_def in_set_enumerate_eq)

lemma find_reservations_snapshot: "snapshot_of s (find_reservations P s)"
  unfolding snapshot_of_def
proof
  show "distinct (map fst (find_reservations P s))"
    unfolding find_reservations_def by (rule distinct_map_filter) simp
  show "\<forall>d \<in> set (find_reservations P s).
          fst d < length (reservations s) \<and> reservations s ! fst d = snd d"
    by (simp add: in_find_reservations)
qed

lemma snapshot_of_snoc:
  "snapshot_of s (ds @ [d]) \<longleftrightarrow>
     snapshot_of s ds \<and> fst d \<notin> fst ` set ds
     \<and> fst d < length (reservations s) \<and> reservations s ! fst d = snd d"
  by (auto simp: snapshot_of_def)

lemma settle_loop:
  assumes "snapshot_of s ds"
  shows "length (reservations (foldl (settle_one upd st) s ds)) = length (reservations s)
       \<and> outbox (foldl (settle_one upd st) s ds) = outbox s
       \<and> (\<forall>p. (inventory (foldl (settle_one upd st) s ds) p = None) = (inventory s p = None))
       \<and> (\<forall>j < length (reservations s).
            reservations (foldl (settle_one upd st) s ds) ! j =
              (if (j, reservations s ! j) \<in> set ds
                  \<and> inventory s (r_productId (reservations s ! j)) \<noteq> None
               then (reservations s ! j)\<lparr>r_status := st\<rparr>
               else reservations s ! j))"
  using assms
proof (induction ds rule: rev_induct)
  case Nil
  show ?case by simp
next
  case (snoc d ds)
  let ?s' = "foldl (settle_one upd st) s ds"
  from snoc.prems have snap: "snapshot_of s ds" and fresh: "fst d \<notin> fst ` set ds"
    and lt: "fst d < length (reservations s)" and cur: "reservations s ! fst d = snd d"
    by (simp_all add: snapshot_of_snoc)
  from snoc.IH [OF snap] have len: "length (reservations ?s') = length (reservations s)"
    and out: "outbox ?s' = outbox s"
    and dom: "\<And>p. (inventory ?s' p = None) = (inventory s p = None)"
    and nth: "\<And>j. j < length (reservations s) \<Longrightarrow>
            reservations ?s' ! j =
              (if (j, reservations s ! j) \<in> set ds
                  \<and> inventory s (r_productId (reservations s ! j)) \<noteq> None
               then (reservations s ! j)\<lparr>r_status := st\<rparr>
               else reservations s ! j)"
    by simp_all
  from fresh have notin: "(fst d, r) \<notin> set ds" for r
    by (metis fst_conv image_eqI)
  have step: "foldl (settle_one upd st) s (ds @ [d]) = settle_one upd st ?s' d" by simp
  have d_eq: "d = (fst d, reservations s ! fst d)" using cur by simp
  show ?case
    unfolding step
  proof (intro conjI allI impI)
    show "length (reservations (settle_one upd st ?s' d)) = length (reservations s)"
      by (simp add: settle_one_basic len)
    show "outbox (settle_one upd st ?s' d) = outbox s"
      by (simp add: settle_one_basic out)
    show "(inventory (settle_one upd st ?s' d) p = None) = (inventory s p = None)" for p
      by (simp add: settle_one_basic dom)
    fix j assume j: "j < length (reservations s)"
    show "reservations (settle_one upd st ?s' d) ! j =
              (if (j, reservations s ! j) \<in> set (ds @ [d])
                  \<and> inventory s (r_productId (reservations s ! j)) \<noteq> None
               then (reservations s ! j)\<lparr>r_status := st\<rparr>
               else reservations s ! j)"
    proof (cases "j = fst d")
      case False
      then have "(j, reservations s ! j) \<noteq> d" by auto
      with False nth [OF j] show ?thesis by (simp add: settle_one_nth_other)
    next
      case True
      show ?thesis
      proof (cases "inventory s (r_productId (snd d)) = None")
        case None: True
        then have "settle_one upd st ?s' d = ?s'" by (simp add: settle_one_missing dom)
        with nth [OF j] notin True None cur show ?thesis by simp
      next
        case False
        then have "inventory ?s' (r_productId (snd d)) \<noteq> None" by (simp add: dom)
        from settle_one_nth_same [OF _ this, of upd st] lt len
        have "reservations (settle_one upd st ?s' d) ! fst d = (snd d)\<lparr>r_status := st\<rparr>" by simp
        with True False cur d_eq show ?thesis by auto
      qed
    qed
  qed
qed

lemma settle_loop_missing:
  "\<forall>d \<in> set ds. inventory s (r_productId (snd d)) = None \<Longrightarrow>
     foldl (settle_one upd st) s ds = s"
  by (induction ds) (simp_all add: settle_one_missing)

lemma settle_loop_terminal_kept:
  assumes "j < length (reservations s)" and "r_status (reservations s ! j) \<noteq> ResReserved"
    and "\<And>r. P r \<Longrightarrow> r_status r = ResReserved"
  shows "reservations (foldl (settle_one upd st) s (find_reservations P s)) ! j = reservations s ! j"
proof -
  from assms(2,3) have "(j, reservations s ! j) \<notin> set (find_reservations P s)"
    by (auto simp: in_find_reservations)
  with settle_loop [where s = s and ds = "find_reservations P s" and upd = upd and st = st,
      OF find_reservations_snapshot] assms(1) show ?thesis
    by simp
qed

lemma settle_loop_settles:
  assumes "st \<noteq> ResReserved"
    and "\<And>r. P r \<Longrightarrow> r_status r = ResReserved"
    and "\<And>r. Q r \<Longrightarrow> r_status r = ResReserved"
    and "Q = P \<or> (\<forall>d \<in> set (find_reservations Q s). inventory s (r_productId (snd d)) = None)"
  shows "\<forall>d \<in> set (find_reservations Q (foldl (settle_one upd st) s (find_reservations P s))).
           inventory (foldl (settle_one upd st) s (find_reservations P s)) (r_productId (snd d)) = None"
proof
  let ?s' = "foldl (settle_one upd st) s (find_reservations P s)"
  note loop = settle_loop [where s = s and ds = "find_reservations P s" and upd = upd and st = st,
      OF find_reservations_snapshot]
  fix d assume "d \<in> set (find_reservations Q ?s')"
  then have j: "fst d < length (reservations s)" and cur: "reservations ?s' ! fst d = snd d"
    and Q: "Q (snd d)"
    using loop by (simp_all add: in_find_reservations)
  from Q assms(3) have res: "r_status (snd d) = ResReserved" by simp
  from loop j have nth: "reservations ?s' ! fst d =
              (if (fst d, reservations s ! fst d) \<in> set (find_reservations P s)
                  \<and> inventory s (r_productId (reservations s ! fst d)) \<noteq> None
               then (reservations s ! fst d)\<lparr>r_status := st\<rparr>
               else reservations s ! fst d)"
    by simp
  have same: "snd d = reservations s ! fst d"
    and unchanged: "\<not> ((fst d, reservations s ! fst d) \<in> set (find_reservations P s)
                  \<and> inventory s (r_productId (reservations s ! fst d)) \<noteq> None)"
    using nth cur res assms(1) by (auto split: if_splits)
  have "inventory s (r_productId (snd d)) = None"
  proof (cases "Q = P")
    case True
    with Q j same have "(fst d, reservations s ! fst d) \<in> set (find_reservations P s)"
      by (simp add: in_find_reservations)
    with unchanged same show ?thesis by simp
  next
    case False
    with assms(4) have all: "\<forall>d \<in> set (find_reservations Q s). inventory s (r_productId (snd d)) = None"
      by simp
    from Q j same have "d \<in> set (find_reservations Q s)"
      by (simp add: in_find_reservations)
    with all show ?thesis by simp
  qed
  with loop show "inventory ?s' (r_productId (snd d)) = None" by simp
qed

lemma release_as_loop:
  "releaseReservation orderId s =
     foldl (settle_one (\<lambda>doc q. doc\<lparr>reserved := js_sub (reserved doc) q\<rparr>) ResReleased) s
       (find_reservations (\<lambda>r. r_orderId r = orderId \<and> r_status r = ResReserved) s)"
  by (simp add: releaseReservation_def release_one_settle)

lemma settled_release: "settled orderId (releaseReservation orderId s)"
  unfolding settled_def release_as_loop
  by (rule settle_loop_settles) simp_all

lemma settled_release_other: "settled orderId' s \<Longrightarrow> settled orderId' (releaseReservation orderId s)"
  unfolding settled_def release_as_loop
  by (rule settle_loop_settles) simp_all

lemma release_settled: "settled orderId s \<Longrightarrow> releaseReservation orderId s = s"
  unfolding settled_def release_as_loop by (rule settle_loop_missing)

lemma release_idempotent:
  "releaseReservation orderId (releaseReservation orderId s) = releaseReservation orderId s"
  by (rule release_settled) (rule settled_release)

lemma confirm_as_loop:
  "pp_status e = ''success'' \<Longrightarrow>
   inventory_handlePaymentProcessed e now s =
     (foldl (settle_one (\<lambda>doc q. doc\<lparr>quantity := js_sub (quantity doc) q, reserved := js_sub (reserved doc) q\<rparr>)
          ResConfirmed) s
        (find_reservations (\<lambda>r. r_orderId r = pp_orderId e \<and> r_status r = ResReserved) s))
     \<lparr>outbox := outbox s @
         [\<lparr>iu_orderId = pp_orderId e, iu_status = ''reserved'', iu_items = None,
           iu_timestamp = now\<rparr>]\<rparr>"
  using settle_loop [where s = s
      and ds = "find_reservations (\<lambda>r. r_orderId r = pp_orderId e \<and> r_status r = ResReserved) s"
      and upd = "\<lambda>doc q. doc\<lparr>quantity := js_sub (quantity doc) q, reserved := js_sub (reserved doc) q\<rparr>"
      and st = ResConfirmed, OF find_reservations_snapshot]
  by (simp add: inventory_handlePaymentProcessed_def confirm_one_settle Let_def)

lemma find_reservations_outbox [simp]:
  "find_reservations P (s\<lparr>outbox := x\<rparr>) = find_reservations P s"
  by (simp add: find_reservations_def)

lemma settle_one_outbox:
  "settle_one upd st (s\<lparr>outbox := x\<rparr>) d = (settle_one upd st s d)\<lparr>outbox := x\<rparr>"
  by (simp add: settle_one_def save_inventory_def save_reservation_def split: option.splits)

lemma settle_loop_outbox:
  "foldl (settle_one upd st) (s\<lparr>outbox := x\<rparr>) ds = (foldl (settle_one upd st) s ds)\<lparr>outbox := x\<rparr>"
  by (induction ds arbitrary: s) (simp_all add: settle_one_outbox)

lemma confirm_idempotent:
  assumes "pp_status e = ''success''"
  shows "inventory (inventory_handlePaymentProcessed e now' (inventory_handlePaymentProcessed e now s)) =
           inventory (inventory_handlePaymentProcessed e now s)"
    and "reservations (inventory_handlePaymentProcessed e now' (inventory_handlePaymentProcessed e now s)) =
           reservations (inventory_handlePaymentProcessed e now s)"
proof -
  let ?P = "\<lambda>r. r_orderId r = pp_orderId e \<and> r_status r = ResReserved"
  let ?f = "settle_one (\<lambda>doc q. doc\<lparr>quantity := js_sub (quantity doc) q, reserved := js_sub (reserved doc) q\<rparr>)
          ResConfirmed"
  let ?s' = "foldl ?f s (find_reservations ?P s)"
  have "\<forall>d \<in> set (find_reservations ?P ?s'). inventory ?s' (r_productId (snd d)) = None"
    by (rule settle_loop_settles) simp_all
  then have again: "foldl ?f ?s' (find_reservations ?P ?s') = ?s'"
    by (rule settle_loop_missing)
  show "inventory (inventory_handlePaymentProcessed e now' (inventory_handlePaymentProcessed e now s)) =
           inventory (inventory_handlePaymentProcessed e now s)"
    by (simp add: confirm_as_loop [OF assms] settle_loop_outbox again)
  show "reservations (inventory_handlePaymentProcessed e now' (inventory_handlePaymentProcessed e now s)) =
           reservations (inventory_handlePaymentProcessed e now s)"
    by (simp add: confirm_as_loop [OF assms] settle_loop_outbox again)
qed

lemma settle_loop_length:
  "length (reservations (foldl (settle_one upd st) s (find_reservations P s))) =
     length (reservations s)"
  using settle_loop [where s = s and ds = "find_reservations P s" and upd = upd and st = st,
      OF find_reservations_snapshot]
  by simp

lemma release_reservations_kept:
  "length (reservations (releaseReservation orderId s)) = length (reservations s)"
  "j < length (reservations s) \<Longrightarrow> r_status (reservations s ! j) \<noteq> ResReserved \<Longrightarrow>
     reservations (releaseReservation orderId s) ! j = reservations s ! j"
proof -
  show "length (reservations (releaseReservation orderId s)) = length (reservations s)"
    by (simp add: release_as_loop settle_loop_length)
  show "reservations (releaseReservation orderId s) ! j = reservations s ! j"
    if "j < length (reservations s)" and "r_status (reservations s ! j) \<noteq> ResReserved"
    unfolding release_as_loop using that by (rule settle_loop_terminal_kept) simp
qed

lemma release_all_reservations_kept:
  "length (reservations (foldl (\<lambda>s' orderId. releaseReservation orderId s') s os)) =
     length (reservations s)
   \<and> (j < length (reservations s) \<longrightarrow> r_status (reservations s ! j) \<noteq> ResReserved \<longrightarrow>
        reservations (foldl (\<lambda>s' orderId. releaseReservation orderId s') s os) ! j =
          reservations s ! j)"
  by (induction os arbitrary: s) (simp_all add: release_reservations_kept)

lemma confirm_reservations_kept:
  assumes "pp_status e = ''success''"
  shows "length (reservations (inventory_handlePaymentProcessed e now s)) = length (reservations s)"
    and "j < length (reservations s) \<Longrightarrow> r_status (reservations s ! j) \<noteq> ResReserved \<Longrightarrow>
     reservations (inventory_handlePaymentProcessed e now s) ! j = reservations s ! j"
proof -
  let ?P = "\<lambda>r. r_orderId r = pp_orderId e \<and> r_status r = ResReserved"
  show "length (reservations (inventory_handlePaymentProcessed e now s)) = length (reservations s)"
    by (simp add: confirm_as_loop [OF assms] settle_loop_length)
  assume "j < length (reservations s)" and "r_status (reservations s ! j) \<noteq> ResReserved"
  then have "reservations (foldl (settle_one
        (\<lambda>doc q. doc\<lparr>quantity := js_sub (quantity doc) q, reserved := js_sub (reserved doc) q\<rparr>) ResConfirmed)
        s (find_reservations ?P s)) ! j = reservations s ! j"
    by (rule settle_loop_terminal_kept) simp
  then show "reservations (inventory_handlePaymentProcessed e now s) ! j = reservations s ! j"
    by (simp add: confirm_as_loop [OF assms])
qed

lemma reserve_reservations_kept:
  "length (reservations s) \<le> length (reservations (fst (reserve orderId items now s)))"
  "j < length (reservations s) \<Longrightarrow>
     reservations (fst (reserve orderId items now s)) ! j = reservations s ! j"
proof -
  have "\<exists>rs. reservations (fst (reserve orderId items now s)) = reservations s @ rs"
  proof (cases "check_availability (inventory s) items = []")
    case True
    from reserve_loop_appends [of orderId now items "[]" s]
    obtain rs where "reservations (fst (reserve_loop orderId now items [] s)) = reservations s @ rs" ..
    with True show ?thesis
      by (cases "reserve_loop orderId now items [] s")
         (auto simp: reserve_def split: option.splits)
  next
    case False
    then show ?thesis by (simp add: reserve_insufficient)
  qed
  then obtain rs where rs: "reservations (fst (reserve orderId items now s)) = reservations s @ rs" ..
  then show "length (reservations s) \<le> length (reservations (fst (reserve orderId items now s)))"
    by simp
  from rs show "j < length (reservations s) \<Longrightarrow>
     reservations (fst (reserve orderId items now s)) ! j = reservations s ! j"
    by (simp add: nth_append)
qed

lemma apply_op_reservations_kept:
  "length (reservations s) \<le> length (reservations (apply_op s op))
   \<and> (j < length (reservations s) \<longrightarrow> r_status (reservations s ! j) \<noteq> ResReserved \<longrightarrow>
        reservations (apply_op s op) ! j = reservations s ! j)"
proof (cases op)
  case (Reserve orderId items now)
  then show ?thesis by (simp add: reserve_reservations_kept)
next
  case (Confirm orderId now)
  have "pp_status (success_event orderId) = ''success''" by (simp add: success_event_def)
  from confirm_reservations_kept [OF this] Confirm show ?thesis by simp
next
  case (Release orderId)
  then show ?thesis by (simp add: release_reservations_kept)
next
  case (SweepExpired now)
  with release_all_reservations_kept [of s "sweep_calls now s" j] show ?thesis
    by (simp add: sweepExpired_def)
qed

lemma run_ops_reservations_kept:
  "length (reservations s) \<le> length (reservations (run_ops s ops))
   \<and> (j < length (reservations s) \<longrightarrow> r_status (reservations s ! j) \<noteq> ResReserved \<longrightarrow>
        reservations (run_ops s ops) ! j = reservations s ! j)"
  unfolding run_ops_def
proof (induction ops arbitrary: s)
  case Nil
  show ?case by simp
next
  case (Cons op ops)
  from apply_op_reservations_kept [of s op j] Cons.IH [of "apply_op s op"]
  show ?case by (auto simp del: apply_op.simps)
qed

text \<open>
  C4. Confirming an order twice leaves the same inventory items and reservations as
  confirming it once, and releasing it twice leaves the same ledger as releasing it once.
  A reservation that is confirmed or released is skipped by every operation: whatever
  sequence of operations follows, it stays as it is, so a reservation leaves the status
  reserved at most once.
\<close>

theorem confirm_release_idempotent:
  "inventory (apply_op (apply_op s (Confirm orderId now)) (Confirm orderId now')) =
     inventory (apply_op s (Confirm orderId now))
   \<and> reservations (apply_op (apply_op s (Confirm orderId now)) (Confirm orderId now')) =
     reservations (apply_op s (Confirm orderId now))
   \<and> apply_op (apply_op s (Release orderId)) (Release orderId) = apply_op s (Release orderId)
   \<and> (\<forall>j < length (reservations s). r_status (reservations s ! j) \<noteq> ResReserved \<longrightarrow>
         reservations (run_ops s ops) ! j = reservations s ! j)"
proof -
  have "pp_status (success_event orderId) = ''success''" by (simp add: success_event_def)
  from confirm_idempotent [OF this] release_idempotent run_ops_reservations_kept
  show ?thesis by simp
qed

theorem confirm_release_idempotent_witness:
  "0 < length (reservations mixed_ledger)
   \<and> r_status (reservations mixed_ledger ! 0) \<noteq> ResReserved
   \<and> reservations (run_ops mixed_ledger
        [Release ''O1'', Confirm ''O1'' 5000, SweepExpired 2000000, Confirm ''O2'' 6000]) ! 0 =
       reservations mixed_ledger ! 0
   \<and> apply_op (apply_op mixed_ledger (Release ''O2'')) (Release ''O2'') =
       apply_op mixed_ledger (Release ''O2'')"
  using confirm_release_idempotent [of mixed_ledger "''O2''" 0 0
      "[Release ''O1'', Confirm ''O1'' 5000, SweepExpired 2000000, Confirm ''O2'' 6000]"]
  by (simp add: mixed_ledger_def)

section \<open>Properties of the expiry sweep\<close>

lemma release_all_first_occurrences:
  "\<forall>x \<in> set seen. settled x s \<Longrightarrow>
     foldl (\<lambda>s' orderId. releaseReservation orderId s') s os =
     foldl (\<lambda>s' orderId. releaseReservation orderId s') s (first_occurrences seen os)"
proof (induction os arbitrary: s seen)
  case Nil
  show ?case by simp
next
  case (Cons x os)
  show ?case
  proof (cases "x \<in> set seen")
    case True
    with Cons.prems have "releaseReservation x s = s" by (simp add: release_settled)
    with True Cons.IH [OF Cons.prems] show ?thesis by simp
  next
    case False
    from Cons.prems have "\<forall>y \<in> set (x # seen). settled y (releaseReservation x s)"
      by (simp add: settled_release settled_release_other)
    from Cons.IH [OF this] False show ?thesis by simp
  qed
qed

lemma map_snd_filter_enumerate:
  "map snd (filter (\<lambda>d. P (snd d)) (enumerate n xs)) = filter P xs"
  by (induction xs arbitrary: n) simp_all

lemma sweep_calls_eq:
  "sweep_calls now s =
     map r_orderId (filter (\<lambda>r. r_status r = ResReserved \<and> r_expiresAt r < now) (reservations s))"
proof -
  let ?P = "\<lambda>r. r_status r = ResReserved \<and> r_expiresAt r < now"
  have "sweep_calls now s =
      map r_orderId (map snd (filter (\<lambda>d. ?P (snd d)) (enumerate 0 (reservations s))))"
    by (simp add: sweep_calls_def expired_reservations_def find_reservations_def)
  also have "map snd (filter (\<lambda>d. ?P (snd d)) (enumerate 0 (reservations s))) =
      filter ?P (reservations s)"
    by (rule map_snd_filter_enumerate)
  finally show ?thesis .
qed

text \<open>
  C6 (as amended). The sweep selects exactly the reservations that are reserved and whose
  deadline lies strictly before \<open>now\<close>, and calls \<open>releaseReservation\<close> once for
  each selected reservation, in order, with that reservation's order id; an order with
  several expired reservations is released several times. The ledger that results is the
  one that releasing each affected order once, at its first occurrence, would give.
\<close>

theorem sweep_releases_per_expired_reservation:
  "sweep_calls now s =
     map r_orderId (filter (\<lambda>r. r_status r = ResReserved \<and> r_expiresAt r < now) (reservations s))
   \<and> sweepExpired now s = foldl (\<lambda>s' orderId. releaseReservation orderId s') s (sweep_calls now s)
   \<and> sweepExpired now s =
       foldl (\<lambda>s' orderId. releaseReservation orderId s') s (first_occurrences [] (sweep_calls now s))"
  using release_all_first_occurrences [of "[]" s "sweep_calls now s"]
  by (simp add: sweep_calls_eq sweepExpired_def)

theorem sweep_releases_per_expired_reservation_witness:
  "sweep_calls 900001 two_lines = [''O1'', ''O1'']
   \<and> sweepExpired 900001 two_lines = releaseReservation ''O1'' two_lines"
proof -
  have calls: "sweep_calls 900001 two_lines = [''O1'', ''O1'']"
    by (simp add: sweep_calls_eq two_lines_def)
  from sweep_releases_per_expired_reservation [of 900001 two_lines]
  have "sweepExpired 900001 two_lines =
      foldl (\<lambda>s' orderId. releaseReservation orderId s') two_lines
        (first_occurrences [] (sweep_calls 900001 two_lines))"
    by blast
  with calls show ?thesis by simp
qed

text \<open>
  The claim C6 as stated fails: an order with two expired reservations is released twice
  by one sweep, and a reservation whose deadline equals \<open>now\<close> is not selected.
\<close>

theorem sweep_one_call_per_reservation:
  "sweep_calls 900001 two_lines = [''O1'', ''O1'']
   \<and> map (\<lambda>r. r_expiresAt r \<le> 900000 \<and> r_status r = ResReserved) (reservations two_lines) = [True, True]
   \<and> sweep_calls 900000 two_lines = []"
  by (simp add: sweep_calls_eq two_lines_def)

section \<open>Reserve, then release\<close>

lemma settle_loop_other_product:
  "\<forall>d \<in> set ds. r_productId (snd d) \<noteq> p \<Longrightarrow>
     inventory (foldl (settle_one upd st) s ds) p = inventory s p"
proof (induction ds arbitrary: s)
  case Nil
  show ?case by simp
next
  case (Cons d ds)
  from Cons.prems have "inventory (settle_one upd st s d) p = inventory s p"
    by (auto simp: settle_one_def save_inventory_def save_reservation_def split: option.splits)
  with Cons.IH [of "settle_one upd st s d"] Cons.prems show ?case by simp
qed

lemma find_reservations_snoc:
  assumes "reservations s' = reservations s @ [r]" and "P r"
  shows "find_reservations P s' = find_reservations P s @ [(length (reservations s), r)]"
  using assms by (simp add: find_reservations_def enumerate_append_eq)

text \<open>
  C5 (as amended). Take a product whose stored item is as a save leaves it
  (\<open>available\<close> is \<open>quantity - reserved\<close> in double arithmetic) and has at least
  \<open>q\<close> units available, such that \<open>reserved\<close> and \<open>reserved + q\<close> are finite
  doubles, and an order, with non-empty order and product id, that holds no reserved
  reservation of that product. Reserving \<open>q\<close> units for the order adds \<open>q\<close> to
  \<open>reserved\<close> and leaves \<open>quantity\<close> alone, and releasing the order afterwards
  gives back the item as it was before, quantity, reserved and available included.
\<close>

theorem reserve_release_round_trip:
  assumes stock: "inventory s p = Some doc"
    and saved: "available doc = js_sub (quantity doc) (reserved doc)"
    and enough: "q \<le> available doc"
    and stored: "representable (reserved doc)"
    and exact: "representable (reserved doc + q)"
    and ids: "orderId \<noteq> []" "p \<noteq> []"
    and fresh: "\<forall>r \<in> set (reservations s).
                  \<not> (r_orderId r = orderId \<and> r_productId r = p \<and> r_status r = ResReserved)"
  shows "map_option reserved
           (inventory (fst (reserve orderId [\<lparr>li_productId = p, li_quantity = q\<rparr>] now s)) p) =
           Some (reserved doc + q)
       \<and> map_option quantity
           (inventory (fst (reserve orderId [\<lparr>li_productId = p, li_quantity = q\<rparr>] now s)) p) =
           Some (quantity doc)
       \<and> inventory (releaseReservation orderId
            (fst (reserve orderId [\<lparr>li_productId = p, li_quantity = q\<rparr>] now s))) p = Some doc"
proof -
  let ?P = "\<lambda>r. r_orderId r = orderId \<and> r_status r = ResReserved"
  let ?f = "settle_one (\<lambda>doc q. doc\<lparr>reserved := js_sub (reserved doc) q\<rparr>) ResReleased"
  let ?doc1 = "doc\<lparr>reserved := reserved doc + q,
                    available := js_sub (quantity doc) (reserved doc + q)\<rparr>"
  let ?new = "new_reservation orderId now \<lparr>li_productId = p, li_quantity = q\<rparr>"
  let ?s1 = "fst (reserve orderId [\<lparr>li_productId = p, li_quantity = q\<rparr>] now s)"
  have valid: "valid_reservation ?new"
    using ids by (simp add: valid_reservation_def new_reservation_def)
  have inv1: "inventory ?s1 = (inventory s)(p \<mapsto> ?doc1)"
    and res1: "reservations ?s1 = reservations s @ [?new]"
    using stock enough valid js_add_exact [OF exact]
    by (simp_all add: reserve_def Let_def save_inventory_def pre_save_def)
  have "?P ?new" by (simp add: new_reservation_def)
  with res1 have found: "find_reservations ?P ?s1 =
      find_reservations ?P s @ [(length (reservations s), ?new)]"
    by (rule find_reservations_snoc)
  let ?s2 = "foldl ?f ?s1 (find_reservations ?P s)"
  have "\<forall>d \<in> set (find_reservations ?P s). r_productId (snd d) \<noteq> p"
    using fresh by (auto simp: in_find_reservations)
  then have "inventory ?s2 p = inventory ?s1 p"
    by (rule settle_loop_other_product)
  with inv1 have inv2: "inventory ?s2 p = Some ?doc1" by simp
  have "releaseReservation orderId ?s1 = ?f ?s2 (length (reservations s), ?new)"
    by (simp add: release_as_loop found)
  moreover from stored have "js_sub (reserved doc + q) q = reserved doc"
    by (simp add: js_sub_def representable_def)
  then have "inventory (?f ?s2 (length (reservations s), ?new)) p = Some doc"
    using inv2 saved
    by (simp add: settle_one_def save_inventory_def save_reservation_def pre_save_def
        new_reservation_def)
  ultimately show ?thesis using inv1 by simp
qed

theorem reserve_release_round_trip_witness:
  "inventory stocked ''p1'' =
     Some \<lparr>productName = ''Widget'', quantity = 10, reserved = 0, available = 10, price = 250,
           updatedAt = 0\<rparr>
   \<and> map_option reserved
       (inventory (fst (reserve ''O1'' [\<lparr>li_productId = ''p1'', li_quantity = 4\<rparr>] 1000 stocked)) ''p1'')
      = Some 4
   \<and> inventory (releaseReservation ''O1''
        (fst (reserve ''O1'' [\<lparr>li_productId = ''p1'', li_quantity = 4\<rparr>] 1000 stocked))) ''p1'' =
      inventory stocked ''p1''"
  using reserve_release_round_trip [where s = stocked and p = "''p1''" and q = 4
      and orderId = "''O1''" and now = 1000
      and doc = "\<lparr>productName = ''Widget'', quantity = 10, reserved = 0, available = 10,
                  price = 250, updatedAt = 0\<rparr>"]
  by (simp add: stocked_def js_sub_def round_double_whole representable_whole)

text \<open>
  The claim C5 as stated fails in two ways. Releasing an order releases every reserved
  reservation it holds: for an order that already holds three reserved units of the
  product, reserving two more and releasing the order leaves \<open>reserved\<close> at 0 and
  \<open>available\<close> at 10, not at 3 and 7. And with \<open>2 ^ 53\<close> units reserved, one
  more unit is lost in the addition but not in the subtraction: the round trip leaves
  \<open>reserved\<close> at \<open>2 ^ 53 - 1\<close> and \<open>available\<close> at 3, not at 2.
\<close>

theorem round_trip_as_claimed_fails:
  "map_option (\<lambda>doc. (reserved doc, available doc)) (inventory held_ledger ''p1'') = Some (3, 7)
   \<and> map_option (\<lambda>doc. (reserved doc, available doc))
        (inventory (fst (reserve ''O2'' [\<lparr>li_productId = ''p1'', li_quantity = 2\<rparr>] 1000 held_ledger))
           ''p1'') = Some (5, 5)
   \<and> map_option (\<lambda>doc. (reserved doc, available doc))
        (inventory (releaseReservation ''O2''
           (fst (reserve ''O2'' [\<lparr>li_productId = ''p1'', li_quantity = 2\<rparr>] 1000 held_ledger)))
           ''p1'') = Some (0, 10)
   \<and> map_option (\<lambda>doc. (reserved doc, available doc)) (inventory large_ledger ''p1'') =
        Some (9007199254740992, 2)
   \<and> map_option (\<lambda>doc. (reserved doc, available doc))
        (inventory (releaseReservation ''O1''
           (fst (reserve ''O1'' [\<lparr>li_productId = ''p1'', li_quantity = 1\<rparr>] 1000 large_ledger)))
           ''p1'') = Some (9007199254740991, 3)"
  by (simp add: reserve_def held_ledger_def large_ledger_def releaseReservation_def
      release_one_def find_reservations_def enumerate_eq_zip save_inventory_def
      save_reservation_def pre_save_def new_reservation_def valid_reservation_def
      js_add_def js_sub_def round_double_whole round_double_beyond_53_bits Let_def)

text \<open>
  The reserve handler does not validate the order id. With the empty order id the
  availability check passes and the inventory item is saved with four more units
  reserved, then the reservation is rejected: the call answers with an error, no
  reservation exists, and a release of that order id finds nothing to give back.
\<close>

lemma empty_order_id_reserves_without_reservation:
  "snd (reserve [] [\<lparr>li_productId = ''p1'', li_quantity = 4\<rparr>] 1000 stocked) = ReserveError
   \<and> reservations (fst (reserve [] [\<lparr>li_productId = ''p1'', li_quantity = 4\<rparr>] 1000 stocked)) = []
   \<and> map_option reserved
        (inventory (releaseReservation []
           (fst (reserve [] [\<lparr>li_productId = ''p1'', li_quantity = 4\<rparr>] 1000 stocked))) ''p1'')
       = Some 4"
  by (simp add: reserve_def stocked_def releaseReservation_def find_reservations_def
      save_inventory_def pre_save_def new_reservation_def valid_reservation_def
      js_add_def js_sub_def round_double_whole Let_def)

section \<open>The accounting invariant\<close>

text \<open>
  C1. The availability check of the reserve handler compares each line item with the
  stored available quantity, without counting what the lines before it ask of the same
  product. A request with two lines of six units of a product with ten units available
  passes the check line by line and is answered as reserved; it leaves \<open>reserved\<close>
  at 12 and \<open>available\<close> at -2.
\<close>

theorem oversold_by_repeated_product:
  "map_option (\<lambda>doc. (quantity doc, reserved doc, available doc)) (inventory stocked ''p1'') =
     Some (10, 0, 10)
   \<and> snd (reserve ''O1'' [\<lparr>li_productId = ''p1'', li_quantity = 6\<rparr>,
                            \<lparr>li_productId = ''p1'', li_quantity = 6\<rparr>] 1000 stocked) =
       ReserveOk [(''p1'', 6, 901000), (''p1'', 6, 901000)]
   \<and> map_option (\<lambda>doc. (quantity doc, reserved doc, available doc))
       (inventory (run_ops stocked
          [Reserve ''O1'' [\<lparr>li_productId = ''p1'', li_quantity = 6\<rparr>,
                           \<lparr>li_productId = ''p1'', li_quantity = 6\<rparr>] 1000]) ''p1'') =
       Some (10, 12, - 2)"
  by (simp add: run_ops_def reserve_def stocked_def save_inventory_def pre_save_def
      new_reservation_def valid_reservation_def js_add_def js_sub_def round_double_whole Let_def)

end
